theory Spec2Isabelle
  imports Complex_Main
begin

section \<open>Text, JSON values and the library functions the pipeline calls\<close>

text \<open>
  A Python \<open>str\<close> is a sequence of Unicode code points. The normaliser works on
  code points beyond Latin-1 (combining marks), so text is a list of code point numbers.
  \<open>u\<close> turns an ASCII literal into such a text.
\<close>

type_synonym codepoint = nat
type_synonym str = "codepoint list"

definition u :: "string \<Rightarrow> str" where
  "u s = map of_char s"

text \<open>
  A value loaded by \<open>json.load\<close>. A dict keeps its items in insertion order, with
  distinct keys; \<open>py_get\<close> is \<open>dict.get\<close>, which answers \<open>None\<close> for an absent key.
\<close>

datatype json =
    JNull
  | JBool bool
  | JInt int
  | JFloat rat
  | JStr str
  | JArr "json list"
  | JObj "(str \<times> json) list"

type_synonym pydict = "(str \<times> json) list"

definition py_get :: "pydict \<Rightarrow> str \<Rightarrow> json" where
  "py_get d k = (case map_of d k of None \<Rightarrow> JNull | Some v \<Rightarrow> v)"

text \<open>Python truth value of a JSON value (\<open>if x:\<close>, \<open>not x\<close>).\<close>

fun truthy :: "json \<Rightarrow> bool" where
  "truthy JNull = False"
| "truthy (JBool b) = b"
| "truthy (JInt n) = (n \<noteq> 0)"
| "truthy (JFloat q) = (q \<noteq> 0)"
| "truthy (JStr s) = (s \<noteq> [])"
| "truthy (JArr xs) = (xs \<noteq> [])"
| "truthy (JObj kvs) = (kvs \<noteq> [])"

fun is_str :: "json \<Rightarrow> bool" where
  "is_str (JStr s) = True"
| "is_str _ = False"

fun str_val :: "json \<Rightarrow> str" where
  "str_val (JStr s) = s"
| "str_val _ = []"

text \<open>
  The functions of the Python standard library that the source calls and whose tables
  are not part of the repository: \<open>str.isspace\<close> (which \<open>str.strip\<close> and the regular
  expression class \<open>\s\<close> both use), \<open>str.lower\<close>, \<open>unicodedata.normalize("NFKD", _)\<close>,
  \<open>unicodedata.combining\<close>, the MD5 and SHA-256 hex digests, \<open>json.load\<close> (\<open>None\<close> when
  it raises), \<open>json.dumps\<close> and \<open>str()\<close>. They are parameters of the model.
\<close>

record stdlib =
  isspace :: "codepoint \<Rightarrow> bool"
  lower :: "str \<Rightarrow> str"
  nfkd :: "str \<Rightarrow> str"
  combining :: "codepoint \<Rightarrow> nat"
  md5 :: "str \<Rightarrow> str"
  sha256 :: "nat list \<Rightarrow> str"
  json_load :: "nat list \<Rightarrow> json option"
  json_dumps :: "json \<Rightarrow> str"
  str_of :: "json \<Rightarrow> str"


section \<open>Normaliser (normalize/text.py)\<close>

text \<open>\<open>str.strip()\<close>: drop the whitespace at both ends.\<close>

definition strip :: "stdlib \<Rightarrow> str \<Rightarrow> str" where
  "strip lib t = rev (dropWhile (isspace lib) (rev (dropWhile (isspace lib) t)))"

text \<open>\<open>_strip_accents\<close>: NFKD, then keep the characters whose combining class is 0.\<close>

definition strip_accents :: "stdlib \<Rightarrow> str \<Rightarrow> str" where
  "strip_accents lib t = filter (\<lambda>ch. combining lib ch = 0) (nfkd lib t)"

text \<open>
  \<open>_WHITESPACE_RE.sub(" ", text)\<close> with the pattern \<open>\s+\<close>: scanning from the left, a
  whitespace character starts a match, which greedily takes the whole run and is replaced
  by one space (code point 32); any other character is copied.
\<close>

function sub_whitespace :: "stdlib \<Rightarrow> str \<Rightarrow> str" where
  "sub_whitespace lib [] = []"
| "sub_whitespace lib (c # cs) =
     (if isspace lib c then 32 # sub_whitespace lib (dropWhile (isspace lib) cs)
      else c # sub_whitespace lib cs)"
  by pat_completeness auto
termination
  by (relation "measure (\<lambda>(lib, t). length t)")
     (auto simp: le_imp_less_Suc length_dropWhile_le)

text \<open>
  \<open>_REPEATS_RE.sub(_collapse, text)\<close> with the pattern \<open>(.)\1{2,}\<close>: the dot matches any
  character but the newline (code point 10); the match needs two or more further copies
  of that character, greedily takes them all, and is replaced by group 1.
\<close>

function sub_repeats :: "str \<Rightarrow> str" where
  "sub_repeats [] = []"
| "sub_repeats (c # cs) =
     (if c \<noteq> 10 \<and> 2 \<le> length (takeWhile (\<lambda>x. x = c) cs)
      then c # sub_repeats (dropWhile (\<lambda>x. x = c) cs)
      else c # sub_repeats cs)"
  by pat_completeness auto
termination
  by (relation "measure length") (auto simp: le_imp_less_Suc length_dropWhile_le)

text \<open>
  \<open>normalize_text\<close>, on a \<open>str\<close> argument (every caller passes one). The keyword
  argument \<open>collapse_repeats\<close> defaults to \<open>False\<close>.
\<close>

definition normalize_text :: "stdlib \<Rightarrow> bool \<Rightarrow> str \<Rightarrow> str" where
  "normalize_text lib collapse_repeats text =
     (let t1 = strip lib text;
          t2 = lower lib t1;
          t3 = strip_accents lib t2;
          t4 = sub_whitespace lib t3
      in if collapse_repeats then sub_repeats t4 else t4)"

definition normalize_seed :: "stdlib \<Rightarrow> bool \<Rightarrow> str \<Rightarrow> str" where
  "normalize_seed lib collapse_repeats text = normalize_text lib collapse_repeats text"

definition normalize_variation :: "stdlib \<Rightarrow> bool \<Rightarrow> str \<Rightarrow> str" where
  "normalize_variation lib collapse_repeats text = normalize_text lib collapse_repeats text"

definition md5_hex :: "stdlib \<Rightarrow> str \<Rightarrow> str" where
  "md5_hex lib text = md5 lib text"


section \<open>Record validator (ingest/validate.py)\<close>

definition validate_record :: "pydict \<Rightarrow> bool \<times> string option" where
  "validate_record record =
     (let seed = py_get record (u ''seed'');
          variation = py_get record (u ''variation'')
      in if \<not> truthy seed \<or> \<not> is_str seed then (False, Some ''missing or invalid seed'')
         else if \<not> truthy variation \<or> \<not> is_str variation
           then (False, Some ''missing or invalid variation'')
         else (True, None))"


section \<open>The generic_responses_v1 adapter (adapters/generic_responses_v1.py)\<close>

definition get_miner_id :: "stdlib \<Rightarrow> pydict \<Rightarrow> json" where
  "get_miner_id lib resp =
     (let hotkey = py_get resp (u ''hotkey'')
      in if truthy hotkey then JStr (str_of lib hotkey)
         else let uid = py_get resp (u ''uid'')
              in if uid \<noteq> JNull then JStr (str_of lib uid) else JNull)"

definition canonical_record :: "str \<Rightarrow> json \<Rightarrow> json \<Rightarrow> pydict" where
  "canonical_record seed variation miner_id =
     [(u ''seed'', JStr seed), (u ''variation'', variation),
      (u ''miner_ext_id'', miner_id), (u ''score'', JNull), (u ''raw'', JNull)]"

text \<open>The two inner loops of \<open>parse\<close>, for one entry of the \<open>variations\<close> mapping.\<close>

definition parse_variations :: "json \<Rightarrow> str \<times> json \<Rightarrow> pydict list" where
  "parse_variations miner_id item =
     (case item of (seed, variations) \<Rightarrow>
        (case variations of
           JArr vs \<Rightarrow> map (\<lambda>variation. canonical_record seed variation miner_id)
                        (filter truthy vs)
         | _ \<Rightarrow> []))"

text \<open>The body of the loop over \<open>responses.values()\<close>.\<close>

definition parse_response :: "stdlib \<Rightarrow> json \<Rightarrow> pydict list" where
  "parse_response lib resp =
     (case resp of
        JObj r \<Rightarrow>
          (let miner_id = get_miner_id lib r;
               variations_map = (case map_of r (u ''variations'') of
                                   None \<Rightarrow> JObj [] | Some v \<Rightarrow> v)
           in case variations_map of
                JObj vm \<Rightarrow> concat (map (parse_variations miner_id) vm)
              | _ \<Rightarrow> [])
      | _ \<Rightarrow> [])"

definition parse :: "stdlib \<Rightarrow> json \<Rightarrow> pydict list" where
  "parse lib obj =
     (case obj of
        JObj d \<Rightarrow>
          (case py_get d (u ''responses'') of
             JObj responses \<Rightarrow> concat (map (\<lambda>kv. parse_response lib (snd kv)) responses)
           | _ \<Rightarrow> [])
      | _ \<Rightarrow> [])"


section \<open>Canonical store (db/models.py)\<close>

text \<open>
  One record per table, with the columns the pipeline writes or reads. The timestamp
  columns and the columns that are never set (display name, meta, source system) are
  left out. Primary keys are assigned by the database on insert.
\<close>

record seed_row =
  s_id :: nat
  seed_text :: str
  normalized_seed :: str
  seed_hash :: str

record variation_row =
  v_id :: nat
  v_seed_id :: nat
  variation_text :: str
  normalized_variation :: str
  variation_hash :: str

record miner_row =
  m_id :: nat
  miner_external_id :: json

record batch_row =
  b_id :: nat
  batch_name :: string

record source_file_row =
  f_id :: nat
  f_batch_id :: nat
  file_path :: string
  file_checksum :: str
  record_count :: "nat option"

record observation_row =
  o_id :: nat
  o_seed_id :: nat
  o_variation_id :: nat
  o_miner_id :: "nat option"
  o_batch_id :: "nat option"
  o_source_file_id :: "nat option"
  score :: json
  raw_payload :: "str option"

record db =
  seeds :: "seed_row list"
  variations :: "variation_row list"
  miners :: "miner_row list"
  batches :: "batch_row list"
  source_files :: "source_file_row list"
  observations :: "observation_row list"

definition empty_db :: db where
  "empty_db = \<lparr>seeds = [], variations = [], miners = [], batches = [],
               source_files = [], observations = []\<rparr>"

datatype error = MultipleResultsFound | IntegrityError | UnknownAdapter

text \<open>A fresh primary key: above every key of the table.\<close>

definition next_id :: "nat list \<Rightarrow> nat" where
  "next_id ids = Suc (fold max ids 0)"

text \<open>\<open>Result.scalar_one_or_none()\<close>: raises when the query has more than one row.\<close>

fun scalar_one_or_none :: "'a list \<Rightarrow> error + 'a option" where
  "scalar_one_or_none [] = Inr None"
| "scalar_one_or_none [r] = Inr (Some r)"
| "scalar_one_or_none (r # r' # rs) = Inl MultipleResultsFound"

text \<open>
  An insert flushed to a table with a unique constraint on \<open>key\<close>: the database raises
  when a row with the same key is there.
\<close>

definition insert_unique :: "('a \<Rightarrow> 'k) \<Rightarrow> 'a list \<Rightarrow> 'a \<Rightarrow> error + 'a list" where
  "insert_unique key rows r =
     (if key r \<in> set (map key rows) then Inl IntegrityError else Inr (rows @ [r]))"


section \<open>Metrics (ingest/metrics.py)\<close>

record metrics =
  seeds_new :: nat
  seeds_existing :: nat
  variations_new :: nat
  variations_existing :: nat
  observations_inserted :: nat
  files_processed :: nat
  files_skipped :: nat
  invalid_records :: nat

definition metrics0 :: metrics where
  "metrics0 = \<lparr>seeds_new = 0, seeds_existing = 0, variations_new = 0,
               variations_existing = 0, observations_inserted = 0, files_processed = 0,
               files_skipped = 0, invalid_records = 0\<rparr>"


section \<open>Batch ingestion engine (ingest/batch.py)\<close>

text \<open>
  The state of one \<open>ingest_batch\<close> call: \<open>committed\<close> is the persisted store,
  \<open>working\<close> is the store as the open session sees it (the committed rows and the rows
  added and flushed in the current transaction), \<open>metrics\<close> is the \<open>Metrics\<close> object.
  \<open>session.commit()\<close> makes the working store the committed one; closing the session
  discards what was not committed.
\<close>

record state =
  committed :: db
  working :: db
  metrics :: metrics

definition commit :: "state \<Rightarrow> state" where
  "commit st = st\<lparr>committed := working st\<rparr>"

definition get_or_create_batch :: "string \<Rightarrow> db \<Rightarrow> error + batch_row \<times> db" where
  "get_or_create_batch name w =
     (case scalar_one_or_none (filter (\<lambda>b. batch_name b = name) (batches w)) of
        Inl e \<Rightarrow> Inl e
      | Inr (Some batch) \<Rightarrow> Inr (batch, w)
      | Inr None \<Rightarrow>
          (let batch = \<lparr>b_id = next_id (map b_id (batches w)), batch_name = name\<rparr>
           in case insert_unique batch_name (batches w) batch of
                Inl e \<Rightarrow> Inl e
              | Inr rows \<Rightarrow> Inr (batch, w\<lparr>batches := rows\<rparr>)))"

definition get_or_create_seed ::
  "str \<Rightarrow> str \<Rightarrow> str \<Rightarrow> state \<Rightarrow> error + seed_row \<times> state" where
  "get_or_create_seed raw_seed norm_seed hash st =
     (let w = working st; m = metrics st in
      case scalar_one_or_none (filter (\<lambda>s. normalized_seed s = norm_seed) (seeds w)) of
        Inl e \<Rightarrow> Inl e
      | Inr (Some seed) \<Rightarrow>
          Inr (seed, st\<lparr>metrics := m\<lparr>seeds_existing := seeds_existing m + 1\<rparr>\<rparr>)
      | Inr None \<Rightarrow>
          (let seed = \<lparr>s_id = next_id (map s_id (seeds w)), seed_text = raw_seed,
                        normalized_seed = norm_seed, seed_hash = hash\<rparr>
           in case insert_unique seed_text (seeds w) seed of
                Inl e \<Rightarrow> Inl e
              | Inr rows \<Rightarrow>
                  Inr (seed, st\<lparr>working := w\<lparr>seeds := rows\<rparr>,
                                 metrics := m\<lparr>seeds_new := seeds_new m + 1\<rparr>\<rparr>)))"

definition get_or_create_variation ::
  "seed_row \<Rightarrow> str \<Rightarrow> str \<Rightarrow> str \<Rightarrow> state \<Rightarrow> error + variation_row \<times> state" where
  "get_or_create_variation seed raw_variation norm_variation hash st =
     (let w = working st; m = metrics st in
      case scalar_one_or_none
             (filter (\<lambda>v. v_seed_id v = s_id seed \<and> normalized_variation v = norm_variation)
                (variations w)) of
        Inl e \<Rightarrow> Inl e
      | Inr (Some var) \<Rightarrow>
          Inr (var, st\<lparr>metrics := m\<lparr>variations_existing := variations_existing m + 1\<rparr>\<rparr>)
      | Inr None \<Rightarrow>
          (let var = \<lparr>v_id = next_id (map v_id (variations w)), v_seed_id = s_id seed,
                       variation_text = raw_variation,
                       normalized_variation = norm_variation, variation_hash = hash\<rparr>
           in case insert_unique (\<lambda>v. (v_seed_id v, normalized_variation v))
                     (variations w) var of
                Inl e \<Rightarrow> Inl e
              | Inr rows \<Rightarrow>
                  Inr (var, st\<lparr>working := w\<lparr>variations := rows\<rparr>,
                                metrics := m\<lparr>variations_new := variations_new m + 1\<rparr>\<rparr>)))"

definition get_or_create_miner :: "json \<Rightarrow> state \<Rightarrow> error + miner_row option \<times> state" where
  "get_or_create_miner ext_id st =
     (if \<not> truthy ext_id then Inr (None, st)
      else
        (let w = working st in
         case scalar_one_or_none (filter (\<lambda>m. miner_external_id m = ext_id) (miners w)) of
           Inl e \<Rightarrow> Inl e
         | Inr (Some miner) \<Rightarrow> Inr (Some miner, st)
         | Inr None \<Rightarrow>
             (let miner = \<lparr>m_id = next_id (map m_id (miners w)), miner_external_id = ext_id\<rparr>
              in case insert_unique miner_external_id (miners w) miner of
                   Inl e \<Rightarrow> Inl e
                 | Inr rows \<Rightarrow> Inr (Some miner, st\<lparr>working := w\<lparr>miners := rows\<rparr>\<rparr>))))"

text \<open>\<open>session.add(obs)\<close> for the \<open>Observation\<close> built at lines 205 to 213.\<close>

definition add_observation ::
  "stdlib \<Rightarrow> seed_row \<Rightarrow> variation_row \<Rightarrow> miner_row option \<Rightarrow> nat \<Rightarrow> nat option \<Rightarrow>
   pydict \<Rightarrow> state \<Rightarrow> state" where
  "add_observation lib seed variation miner batch_id src_file rec st =
     (let w = working st;
          obs = \<lparr>o_id = next_id (map o_id (observations w)),
                 o_seed_id = s_id seed,
                 o_variation_id = v_id variation,
                 o_miner_id = map_option m_id miner,
                 o_batch_id = Some batch_id,
                 o_source_file_id = src_file,
                 score = py_get rec (u ''score''),
                 raw_payload = (if truthy (py_get rec (u ''raw''))
                                then Some (json_dumps lib (py_get rec (u ''raw'')))
                                else None)\<rparr>
      in st\<lparr>working := w\<lparr>observations := observations w @ [obs]\<rparr>\<rparr>)"


text \<open>
  The body of the loop over the adapter's records (lines 176 to 216), on the session state
  and the running \<open>record_count\<close> (\<open>rcount\<close>). \<open>src_file\<close> is the id of the file's
  \<open>SourceFile\<close> row (\<open>None\<close> in a dry run). The source calls \<open>normalize_seed\<close> and
  \<open>normalize_variation\<close> with the default \<open>collapse_repeats=False\<close>.
\<close>

definition ingest_record ::
  "stdlib \<Rightarrow> bool \<Rightarrow> nat \<Rightarrow> nat option \<Rightarrow> pydict \<Rightarrow> state \<times> nat \<Rightarrow> error + state \<times> nat" where
  "ingest_record lib dry_run batch_id src_file rec sc =
     (case sc of (st, rcount) \<Rightarrow>
      if \<not> fst (validate_record rec)
      then Inr (st\<lparr>metrics := (metrics st)\<lparr>invalid_records :=
                      invalid_records (metrics st) + 1\<rparr>\<rparr>, rcount)
      else
        (let raw_seed = str_val (py_get rec (u ''seed''));
             raw_variation = str_val (py_get rec (u ''variation''));
             norm_seed = normalize_seed lib False raw_seed;
             norm_variation = normalize_variation lib False raw_variation;
             seed_hash = md5_hex lib norm_seed;
             var_hash = md5_hex lib norm_variation
         in case get_or_create_seed raw_seed norm_seed seed_hash st of
              Inl e \<Rightarrow> Inl e
            | Inr (seed, st1) \<Rightarrow>
               (case get_or_create_variation seed raw_variation norm_variation var_hash st1 of
                  Inl e \<Rightarrow> Inl e
                | Inr (variation, st2) \<Rightarrow>
                   (case (if truthy (py_get rec (u ''miner_ext_id''))
                          then get_or_create_miner (py_get rec (u ''miner_ext_id'')) st2
                          else Inr (None, st2)) of
                      Inl e \<Rightarrow> Inl e
                    | Inr (miner, st3) \<Rightarrow>
                       (let st4 = (if \<not> dry_run
                                   then add_observation lib seed variation miner batch_id
                                          src_file rec st3
                                   else st3)
                        in Inr (st4\<lparr>metrics := (metrics st4)\<lparr>observations_inserted :=
                                       observations_inserted (metrics st4) + 1\<rparr>\<rparr>,
                                rcount + 1))))))"

fun ingest_records ::
  "stdlib \<Rightarrow> bool \<Rightarrow> nat \<Rightarrow> nat option \<Rightarrow> pydict list \<Rightarrow> state \<times> nat \<Rightarrow> error + state \<times> nat" where
  "ingest_records lib dry_run batch_id src_file [] sc = Inr sc"
| "ingest_records lib dry_run batch_id src_file (rec # recs) sc =
     (case ingest_record lib dry_run batch_id src_file rec sc of
        Inl e \<Rightarrow> Inl e
      | Inr sc' \<Rightarrow> ingest_records lib dry_run batch_id src_file recs sc')"

text \<open>An input path: what \<open>str(path)\<close>, \<open>path.is_file()\<close> and reading the file give.\<close>

record infile =
  path :: string
  is_file :: bool
  content :: "nat list"

definition compute_checksum :: "stdlib \<Rightarrow> infile \<Rightarrow> str" where
  "compute_checksum lib f = sha256 lib (content f)"

definition load_json :: "stdlib \<Rightarrow> infile \<Rightarrow> json option" where
  "load_json lib f = json_load lib (content f)"

text \<open>Lines 147 to 153: the resume query for a \<open>SourceFile\<close> of this batch and checksum.\<close>

definition find_source_file :: "nat \<Rightarrow> str \<Rightarrow> db \<Rightarrow> error + source_file_row option" where
  "find_source_file batch_id checksum w =
     scalar_one_or_none
       (filter (\<lambda>r. f_batch_id r = batch_id \<and> file_checksum r = checksum) (source_files w))"

text \<open>Lines 166 to 172: the \<open>SourceFile\<close> row is added to the session and flushed.\<close>

definition add_source_file :: "nat \<Rightarrow> string \<Rightarrow> str \<Rightarrow> state \<Rightarrow> nat \<times> state" where
  "add_source_file batch_id file_path' checksum st =
     (let w = working st;
          src = \<lparr>f_id = next_id (map f_id (source_files w)), f_batch_id = batch_id,
                 file_path = file_path', file_checksum = checksum, record_count = None\<rparr>
      in (f_id src, st\<lparr>working := w\<lparr>source_files := source_files w @ [src]\<rparr>\<rparr>))"

text \<open>Line 219: \<open>src_file.record_count = record_count\<close>.\<close>

definition set_record_count :: "nat \<Rightarrow> nat \<Rightarrow> state \<Rightarrow> state" where
  "set_record_count fid n st =
     st\<lparr>working := (working st)\<lparr>source_files :=
          map (\<lambda>r. if f_id r = fid then r\<lparr>record_count := Some n\<rparr> else r)
              (source_files (working st))\<rparr>\<rparr>"

text \<open>Lines 163 to 223: what happens to a file once its JSON document is loaded.\<close>

definition process_file ::
  "stdlib \<Rightarrow> (json \<Rightarrow> pydict list) \<Rightarrow> bool \<Rightarrow> nat \<Rightarrow> infile \<Rightarrow> str \<Rightarrow> json \<Rightarrow> state \<Rightarrow>
   error + state" where
  "process_file lib adapter dry_run batch_id f checksum data st =
     (let (src_file, st1) =
            (if \<not> dry_run
             then (case add_source_file batch_id (path f) checksum st of
                     (fid, st') \<Rightarrow> (Some fid, st'))
             else (None, st))
      in case ingest_records lib dry_run batch_id src_file (adapter data) (st1, 0) of
           Inl e \<Rightarrow> Inl e
         | Inr (st2, rcount) \<Rightarrow>
            (let st3 = (case src_file of
                          Some fid \<Rightarrow> if \<not> dry_run then set_record_count fid rcount st2
                                      else st2
                        | None \<Rightarrow> st2);
                 st4 = st3\<lparr>metrics := (metrics st3)\<lparr>files_processed :=
                              files_processed (metrics st3) + 1\<rparr>\<rparr>
             in Inr (if \<not> dry_run then commit st4 else st4)))"

text \<open>The body of the loop over \<open>files\<close> (lines 142 to 223).\<close>

definition ingest_file ::
  "stdlib \<Rightarrow> (json \<Rightarrow> pydict list) \<Rightarrow> bool \<Rightarrow> bool \<Rightarrow> nat \<Rightarrow> infile \<Rightarrow> state \<Rightarrow> error + state" where
  "ingest_file lib adapter dry_run resume batch_id f st =
     (if \<not> is_file f then Inr st
      else
        (let checksum = compute_checksum lib f in
         case (if resume then find_source_file batch_id checksum (working st)
               else Inr None) of
           Inl e \<Rightarrow> Inl e
         | Inr (Some existing_file) \<Rightarrow>
             Inr (st\<lparr>metrics := (metrics st)\<lparr>files_skipped :=
                        files_skipped (metrics st) + 1\<rparr>\<rparr>)
         | Inr None \<Rightarrow>
            (case load_json lib f of
               None \<Rightarrow> Inr (st\<lparr>metrics := (metrics st)\<lparr>invalid_records :=
                                 invalid_records (metrics st) + 1\<rparr>\<rparr>)
             | Some data \<Rightarrow> process_file lib adapter dry_run batch_id f checksum data st)))"

text \<open>
  The loop over \<open>files\<close>. An exception leaves the loop; the state returned with it is the
  one before the file that raised, whose \<open>committed\<close> part is what the store then holds.
\<close>

fun ingest_files ::
  "stdlib \<Rightarrow> (json \<Rightarrow> pydict list) \<Rightarrow> bool \<Rightarrow> bool \<Rightarrow> nat \<Rightarrow> infile list \<Rightarrow> state \<Rightarrow>
   error option \<times> state" where
  "ingest_files lib adapter dry_run resume batch_id [] st = (None, st)"
| "ingest_files lib adapter dry_run resume batch_id (f # fs) st =
     (case ingest_file lib adapter dry_run resume batch_id f st of
        Inl e \<Rightarrow> (Some e, st)
      | Inr st' \<Rightarrow> ingest_files lib adapter dry_run resume batch_id fs st')"

text \<open>The registry (adapters/registry.py) holds one adapter.\<close>

definition get_adapter :: "stdlib \<Rightarrow> string \<Rightarrow> error + (json \<Rightarrow> pydict list)" where
  "get_adapter lib name =
     (if name = ''generic_responses_v1'' then Inr (parse lib) else Inl UnknownAdapter)"

datatype outcome = Raised error | Returned metrics

text \<open>
  \<open>ingest_batch\<close> with an adapter function in hand: the session is opened on the persisted
  store, the batch row is looked up or created, the files are ingested, and the session is
  closed. The result is the outcome of the call and the persisted store after it.
  The \<open>workers\<close> argument is not used by the source and is left out.
\<close>

definition ingest_with ::
  "stdlib \<Rightarrow> (json \<Rightarrow> pydict list) \<Rightarrow> string \<Rightarrow> infile list \<Rightarrow> bool \<Rightarrow> bool \<Rightarrow> db \<Rightarrow>
   outcome \<times> db" where
  "ingest_with lib adapter name files dry_run resume store =
     (case get_or_create_batch name store of
        Inl e \<Rightarrow> (Raised e, store)
      | Inr (batch, w) \<Rightarrow>
         (case ingest_files lib adapter dry_run resume (b_id batch) files
                 \<lparr>committed = store, working = w, metrics = metrics0\<rparr> of
            (Some e, st) \<Rightarrow> (Raised e, committed st)
          | (None, st) \<Rightarrow> (Returned (metrics st), committed st)))"

definition ingest_batch ::
  "stdlib \<Rightarrow> string \<Rightarrow> infile list \<Rightarrow> string \<Rightarrow> bool \<Rightarrow> bool \<Rightarrow> db \<Rightarrow> outcome \<times> db" where
  "ingest_batch lib name files adapter_name dry_run resume store =
     (case get_adapter lib adapter_name of
        Inl e \<Rightarrow> (Raised e, store)
      | Inr adapter \<Rightarrow> ingest_with lib adapter name files dry_run resume store)"


section \<open>The diff query (api/routers/seeds.py)\<close>





section \<open>Concrete inputs\<close>

text \<open>
  The whitespace code points of Python (\<open>str.isspace\<close>).
\<close>

definition py_isspace :: "codepoint \<Rightarrow> bool" where
  "py_isspace c =
     (c \<in> set [9, 10, 11, 12, 13, 28, 29, 30, 31, 32, 133, 160, 5760, 8232, 8233, 8239,
               8287, 12288]
      \<or> (8192 \<le> c \<and> c \<le> 8202))"

text \<open>
  The bytes of a JSON text given as a literal in which a backquote stands for the double
  quote (code point 34).
\<close>

definition json_text :: "string \<Rightarrow> nat list" where
  "json_text s = map (\<lambda>c. if c = 96 then 34 else c) (u s)"

text \<open>
  A library for the examples below. On text over ASCII and the code points U+00A8
  (diaeresis), U+00B2 (superscript two), U+00CB and U+00EB (E and e with diaeresis),
  U+00DF (sharp s), U+0308 (combining diaeresis) and U+20DD (combining enclosing circle),
  \<open>lower\<close>, \<open>nfkd\<close> and \<open>combining\<close> give what Python gives: \<open>lower\<close> leaves the
  sharp s as it is; NFKD maps U+00A8 to a space and U+0308, U+00B2 to the digit 2, and the
  two accented letters to the base letter and U+0308; the combining class of U+0308 is
  230 and that of U+20DD is 0.
  The digests are stood in for by the identity, \<open>json.load\<close> by a table of the documents
  the examples read, \<open>json.dumps\<close> and \<open>str()\<close> by functions on the values they meet.
\<close>

definition doc_ahmed :: json where
  "doc_ahmed =
     JObj [(u ''responses'',
            JObj [(u ''149'',
                   JObj [(u ''hotkey'', JStr (u ''0xabc'')),
                         (u ''variations'',
                          JObj [(u ''Ahmed'', JArr [JStr (u ''ahmad''), JStr (u ''amed'')])])])])]"

definition lib0 :: stdlib where
  "lib0 =
     \<lparr>isspace = py_isspace,
      lower = map (\<lambda>c. if (65 \<le> c \<and> c \<le> 90) \<or> c = 203 then c + 32 else c),
      nfkd = (\<lambda>t. concat (map (\<lambda>c. if c = 168 then [32, 776]
                                      else if c = 178 then [50]
                                      else if c = 203 then [69, 776]
                                      else if c = 235 then [101, 776]
                                      else [c]) t)),
      combining = (\<lambda>c. if c = 776 then 230 else 0),
      md5 = (\<lambda>t. t),
      sha256 = (\<lambda>bs. bs),
      json_load = map_of
        [(json_text
            ''{`responses`:{`149`:{`hotkey`:`0xabc`,`variations`:{`Ahmed`:[`ahmad`,`amed`]}}}}'',
          doc_ahmed),
         (json_text ''[1]'', JArr [JInt 1])],
      json_dumps = (\<lambda>j. []),
      str_of = str_val\<rparr>"

definition st0 :: state where
  "st0 = \<lparr>committed = empty_db, working = empty_db, metrics = metrics0\<rparr>"






text \<open>
  Two files with the same content under different names, and a file that is not JSON.
\<close>

definition file_ahmed :: infile where
  "file_ahmed =
     \<lparr>path = ''ahmed.json'', is_file = True,
      content = json_text
        ''{`responses`:{`149`:{`hotkey`:`0xabc`,`variations`:{`Ahmed`:[`ahmad`,`amed`]}}}}''\<rparr>"

definition file_copy :: infile where
  "file_copy = file_ahmed\<lparr>path := ''copy.json''\<rparr>"

definition file_broken :: infile where
  "file_broken = \<lparr>path = ''broken.json'', is_file = True, content = json_text ''{''\<rparr>"

definition file_broken_copy :: infile where
  "file_broken_copy = file_broken\<lparr>path := ''again.json''\<rparr>"

text \<open>A store with the seed "Ahmed" and its variations "ahmad" and "amed".\<close>

definition db_ahmed :: db where
  "db_ahmed =
     \<lparr>seeds = [\<lparr>s_id = 1, seed_text = u ''Ahmed'', normalized_seed = u ''ahmed'',
                 seed_hash = u ''ahmed''\<rparr>],
      variations = [\<lparr>v_id = 1, v_seed_id = 1, variation_text = u ''ahmad'',
                      normalized_variation = u ''ahmad'', variation_hash = u ''ahmad''\<rparr>,
                    \<lparr>v_id = 2, v_seed_id = 1, variation_text = u ''amed'',
                      normalized_variation = u ''amed'', variation_hash = u ''amed''\<rparr>],
      miners = [], batches = [], source_files = [], observations = []\<rparr>"

section \<open>The normalisation steps as the specification words them\<close>

text \<open>
  Trimming: the trailing whitespace goes, then the leading whitespace.
\<close>

definition trim :: "stdlib \<Rightarrow> str \<Rightarrow> str" where
  "trim lib t = dropWhile (isspace lib) (rev (dropWhile (isspace lib) (rev t)))"

text \<open>
  The maximal runs of a text: consecutive characters with the same key. The runs of
  \<open>aab\<close> under the identity key are \<open>aa\<close> and \<open>b\<close>.
\<close>

function runs :: "('a \<Rightarrow> 'k) \<Rightarrow> 'a list \<Rightarrow> 'a list list" where
  "runs key [] = []"
| "runs key (x # xs) =
     (x # takeWhile (\<lambda>y. key y = key x) xs) # runs key (dropWhile (\<lambda>y. key y = key x) xs)"
  by pat_completeness auto
termination
  by (relation "measure (\<lambda>(key, xs). length xs)")
     (auto simp: le_imp_less_Suc length_dropWhile_le)

text \<open>Every run of whitespace becomes one space.\<close>

definition collapse_whitespace :: "stdlib \<Rightarrow> str \<Rightarrow> str" where
  "collapse_whitespace lib t =
     concat (map (\<lambda>r. if isspace lib (hd r) then [32] else r) (runs (isspace lib) t))"

text \<open>Every run of three or more identical characters becomes one occurrence.\<close>

definition collapse_repeated :: "str \<Rightarrow> str" where
  "collapse_repeated t =
     concat (map (\<lambda>r. if 3 \<le> length r then [hd r] else r) (runs (\<lambda>c. c) t))"

text \<open>Dropping all combining marks, for a given notion of combining mark.\<close>

definition drop_marks :: "(codepoint \<Rightarrow> bool) \<Rightarrow> str \<Rightarrow> str" where
  "drop_marks is_mark t = filter (\<lambda>c. \<not> is_mark c) t"

text \<open>
  The five steps of the specification, in its order. Its three Unicode notions are
  parameters: the case folding of step 2, the decomposition of step 3 (the specification
  names the canonical one, NFD) and the combining marks that step 3 drops (in Unicode, the
  characters of general category M).
\<close>

definition spec_normalize ::
  "stdlib \<Rightarrow> (str \<Rightarrow> str) \<Rightarrow> (str \<Rightarrow> str) \<Rightarrow> (codepoint \<Rightarrow> bool) \<Rightarrow> bool \<Rightarrow> str \<Rightarrow> str" where
  "spec_normalize lib fold_case decompose is_mark collapse_repeats text =
     (let step1 = trim lib text;
          step2 = fold_case step1;
          step3 = drop_marks is_mark (decompose step2);
          step4 = collapse_whitespace lib step3
      in if collapse_repeats then collapse_repeated step4 else step4)"

text \<open>
  ASCII text, the lower case of an ASCII character, and what Python's Unicode functions
  do on ASCII text: \<open>lower\<close> maps the capital letters to the small ones, NFKD changes
  nothing, no character is a combining mark, and no letter is whitespace.
\<close>

definition ascii_text :: "str \<Rightarrow> bool" where
  "ascii_text t = list_all (\<lambda>c. c < 128) t"

definition ascii_lower :: "codepoint \<Rightarrow> codepoint" where
  "ascii_lower c = (if 65 \<le> c \<and> c \<le> 90 then c + 32 else c)"

definition python_on_ascii :: "stdlib \<Rightarrow> bool" where
  "python_on_ascii lib =
     ((\<forall>t. ascii_text t \<longrightarrow> lower lib t = map ascii_lower t) \<and>
      (\<forall>t. ascii_text t \<longrightarrow> nfkd lib t = t) \<and>
      (\<forall>c. c < 128 \<longrightarrow> combining lib c = 0) \<and>
      (\<forall>c. 65 \<le> c \<and> c \<le> 90 \<longrightarrow> \<not> isspace lib c \<and> \<not> isspace lib (c + 32)))"

text \<open>
  The canonical decomposition (NFD) on the code points of the examples: it decomposes the
  two accented letters and leaves U+00A8 and U+00B2, whose decompositions are
  compatibility ones, as they are.
\<close>

definition nfd0 :: "str \<Rightarrow> str" where
  "nfd0 t = concat (map (\<lambda>c. if c = 203 then [69, 776]
                              else if c = 235 then [101, 776]
                              else [c]) t)"

text \<open>
  Case folding (\<open>str.casefold\<close>) on the code points of the examples: as \<open>lower\<close>, but
  the sharp s U+00DF becomes "ss". And the combining marks among them, the characters of
  general category M: U+0308 (Mn) and U+20DD (Me).
\<close>

definition casefold0 :: "str \<Rightarrow> str" where
  "casefold0 t = concat (map (\<lambda>c. if (65 \<le> c \<and> c \<le> 90) \<or> c = 203 then [c + 32]
                                   else if c = 223 then [115, 115]
                                   else [c]) t)"

definition is_mark0 :: "codepoint \<Rightarrow> bool" where
  "is_mark0 c = (c = 776 \<or> c = 8413)"

text \<open>A text with no whitespace at either end.\<close>

definition trimmed :: "stdlib \<Rightarrow> str \<Rightarrow> bool" where
  "trimmed lib t = (t = [] \<or> (\<not> isspace lib (hd t) \<and> \<not> isspace lib (last t)))"

text \<open>
  The number of \<open>SourceFile\<close> rows of a batch with a given checksum: what the resume
  query of lines 147 to 153 selects.
\<close>

definition sf_count :: "nat \<Rightarrow> str \<Rightarrow> db \<Rightarrow> nat" where
  "sf_count batch_id checksum w =
     length (filter (\<lambda>r. f_batch_id r = batch_id \<and> file_checksum r = checksum)
               (source_files w))"

text \<open>Adding to one counter of the metrics.\<close>

definition skipped :: "nat \<Rightarrow> state \<Rightarrow> state" where
  "skipped k st = st\<lparr>metrics := (metrics st)\<lparr>files_skipped := files_skipped (metrics st) + k\<rparr>\<rparr>"

text \<open>
  The store after the two records of \<open>doc_ahmed\<close> were looked up or created, still
  without observations, and the session state a dry run over them ends in.
\<close>

definition db_ahmed_miner :: db where
  "db_ahmed_miner = db_ahmed\<lparr>miners := [\<lparr>m_id = 1, miner_external_id = JStr (u ''0xabc'')\<rparr>]\<rparr>"

definition dry_session :: state where
  "dry_session =
     \<lparr>committed = empty_db, working = db_ahmed_miner,
      metrics = metrics0\<lparr>seeds_new := 1, seeds_existing := 1, variations_new := 2,
                         observations_inserted := 2\<rparr>\<rparr>"

text \<open>
  The store and the metrics after one real run over \<open>file_ahmed\<close> from the empty store:
  \<open>db_once\<close> without the batch row (the loop over the files started with batch id 1),
  \<open>db_run1\<close> with the row of batch "b1".
\<close>

definition db_once :: db where
  "db_once =
     db_ahmed_miner
       \<lparr>source_files :=
          [\<lparr>f_id = 1, f_batch_id = 1, file_path = ''ahmed.json'',
            file_checksum = content file_ahmed, record_count = Some 2\<rparr>],
        observations :=
          [\<lparr>o_id = 1, o_seed_id = 1, o_variation_id = 1, o_miner_id = Some 1,
            o_batch_id = Some 1, o_source_file_id = Some 1, score = JNull,
            raw_payload = None\<rparr>,
           \<lparr>o_id = 2, o_seed_id = 1, o_variation_id = 2, o_miner_id = Some 1,
            o_batch_id = Some 1, o_source_file_id = Some 1, score = JNull,
            raw_payload = None\<rparr>]\<rparr>"

definition db_run1 :: db where
  "db_run1 = db_once\<lparr>batches := [\<lparr>b_id = 1, batch_name = ''b1''\<rparr>]\<rparr>"

definition m_once :: metrics where
  "m_once = metrics0\<lparr>seeds_new := 1, seeds_existing := 1, variations_new := 2,
                     observations_inserted := 2, files_processed := 1\<rparr>"

definition st_once :: state where
  "st_once = \<lparr>committed = db_once, working = db_once, metrics = m_once\<rparr>"

text \<open>
  A store in which two seeds have the same normalised text (the schema has a unique
  constraint on \<open>seed_text\<close> only): looking the seed "ahmed" up raises.
\<close>

definition db_dup :: db where
  "db_dup =
     empty_db\<lparr>seeds :=
       [\<lparr>s_id = 1, seed_text = u ''Ahmed'', normalized_seed = u ''ahmed'',
         seed_hash = u ''ahmed''\<rparr>,
        \<lparr>s_id = 2, seed_text = u ''AHMED'', normalized_seed = u ''ahmed'',
         seed_hash = u ''ahmed''\<rparr>]\<rparr>"

section \<open>Sequences of runs and the uniqueness invariant\<close>





text \<open>
  The number of records of an input file that pass validation, when the file is a regular
  file that the resume check over the store \<open>w\<close> does not skip and whose JSON loads;
  0 for any other file. These are the records of the file that a run accepts.
\<close>

definition would_accept ::
  "stdlib \<Rightarrow> (json \<Rightarrow> pydict list) \<Rightarrow> bool \<Rightarrow> nat \<Rightarrow> db \<Rightarrow> infile \<Rightarrow> nat" where
  "would_accept lib adapter resume batch_id w f =
     (if is_file f \<and> (resume \<longrightarrow> sf_count batch_id (compute_checksum lib f) w = 0)
      then (case load_json lib f of
              None \<Rightarrow> 0
            | Some data \<Rightarrow> length (filter (\<lambda>r. fst (validate_record r)) (adapter data)))
      else 0)"






section \<open>Properties\<close>

subsection \<open>Record validation\<close>

lemma nonempty_text_iff: "(truthy x \<and> is_str x) = (\<exists>s. s \<noteq> [] \<and> x = JStr s)"
  by (cases x) auto

lemma py_get_text_iff:
  "(truthy (py_get r k) \<and> is_str (py_get r k)) = (\<exists>s. s \<noteq> [] \<and> map_of r k = Some (JStr s))"
  unfolding nonempty_text_iff by (auto simp: py_get_def split: option.splits)

lemma validate_ok_iff:
  "fst (validate_record r) \<longleftrightarrow>
     (\<exists>s. s \<noteq> [] \<and> map_of r (u ''seed'') = Some (JStr s)) \<and>
     (\<exists>v. v \<noteq> [] \<and> map_of r (u ''variation'') = Some (JStr v))"
proof -
  have "fst (validate_record r) \<longleftrightarrow>
      (truthy (py_get r (u ''seed'')) \<and> is_str (py_get r (u ''seed''))) \<and>
      (truthy (py_get r (u ''variation'')) \<and> is_str (py_get r (u ''variation'')))"
    by (auto simp: validate_record_def Let_def)
  then show ?thesis unfolding py_get_text_iff .
qed

lemma validate_reason: "\<not> fst (validate_record r) \<Longrightarrow> snd (validate_record r) \<noteq> None"
  by (auto simp: validate_record_def Let_def split: if_splits)

lemma validate_cong:
  "map_of r (u ''seed'') = map_of r' (u ''seed'') \<Longrightarrow>
   map_of r (u ''variation'') = map_of r' (u ''variation'') \<Longrightarrow>
   validate_record r = validate_record r'"
  by (simp add: validate_record_def py_get_def)

lemma ingest_record_invalid:
  "\<not> fst (validate_record r) \<Longrightarrow>
   ingest_record lib dry bid sf r (st, n) =
     Inr (st\<lparr>metrics := (metrics st)\<lparr>invalid_records := invalid_records (metrics st) + 1\<rparr>\<rparr>, n)"
  by (simp add: ingest_record_def)

text \<open>
  C8. \<open>validate_record\<close> rejects a record exactly when its \<open>seed\<close> or its \<open>variation\<close> is
  absent or is not a non-empty text, and a rejection carries a reason. The verdict depends
  on these two fields only: records that agree on them get the same verdict, whatever their
  miner identifier, score and raw payload. In the engine a rejected record adds one to
  \<open>invalid_records\<close>, changes nothing else, and the loop goes on with the next record.
\<close>

theorem validate_record_rejects_iff:
  "(\<not> fst (validate_record r) \<longleftrightarrow>
      \<not> (\<exists>s. s \<noteq> [] \<and> map_of r (u ''seed'') = Some (JStr s)) \<or>
      \<not> (\<exists>v. v \<noteq> [] \<and> map_of r (u ''variation'') = Some (JStr v)))
   \<and> (\<not> fst (validate_record r) \<longrightarrow> snd (validate_record r) \<noteq> None)
   \<and> (map_of r (u ''seed'') = map_of r' (u ''seed'') \<and>
       map_of r (u ''variation'') = map_of r' (u ''variation'')
       \<longrightarrow> validate_record r' = validate_record r)
   \<and> (\<not> fst (validate_record r) \<longrightarrow>
        ingest_records lib dry bid sf (r # rs) (st, n) =
        ingest_records lib dry bid sf rs
          (st\<lparr>metrics := (metrics st)\<lparr>invalid_records := invalid_records (metrics st) + 1\<rparr>\<rparr>, n))"
  using validate_ok_iff[of r] validate_reason[of r] validate_cong[of r r']
    ingest_record_invalid[of r lib dry bid sf st n]
  by auto

theorem validate_record_rejects_iff_witness:
  "\<not> fst (validate_record [(u ''seed'', JStr (u ''Ahmed'')), (u ''variation'', JStr [])])
   \<and> snd (validate_record [(u ''seed'', JStr (u ''Ahmed'')), (u ''variation'', JStr [])]) \<noteq> None
   \<and> validate_record [(u ''seed'', JStr (u ''Ahmed'')), (u ''variation'', JStr []),
                       (u ''score'', JStr (u ''high''))]
     = validate_record [(u ''seed'', JStr (u ''Ahmed'')), (u ''variation'', JStr [])]
   \<and> ingest_records lib0 False 1 None
        [[(u ''seed'', JStr (u ''Ahmed'')), (u ''variation'', JStr [])]] (st0, 0)
     = Inr (st0\<lparr>metrics := (metrics st0)\<lparr>invalid_records := invalid_records (metrics st0) + 1\<rparr>\<rparr>, 0)"
  using validate_record_rejects_iff
    [of "[(u ''seed'', JStr (u ''Ahmed'')), (u ''variation'', JStr [])]"
        "[(u ''seed'', JStr (u ''Ahmed'')), (u ''variation'', JStr []),
          (u ''score'', JStr (u ''high''))]"
        lib0 False 1 None "[]" st0 0]
  by (simp add: u_def)

subsection \<open>Fresh keys\<close>

lemma fold_max_ge: "(x::nat) \<in> set ids \<Longrightarrow> x \<le> fold max ids a"
  and fold_max_acc: "a \<le> fold max ids (a::nat)"
proof (induction ids arbitrary: a)
  case Nil
  { case 1 then show ?case by simp }
  { case 2 then show ?case by simp }
next
  case (Cons y ys)
  { case 1
    then show ?case
    proof (cases "x = y")
      case True
      have "max y a \<le> fold max ys (max y a)" by (rule Cons.IH(2))
      with True show ?thesis by simp
    next
      case False
      with 1 have "x \<in> set ys" by simp
      then show ?thesis using Cons.IH(1) by simp
    qed }
  { case 2
    have "max y a \<le> fold max ys (max y a)" by (rule Cons.IH(2))
    then show ?case by simp }
qed

lemma next_id_fresh: "x \<in> set ids \<Longrightarrow> x < next_id ids"
  unfolding next_id_def using fold_max_ge[of x ids 0] by simp

lemma next_id_notin: "next_id ids \<notin> set ids"
  using next_id_fresh[of "next_id ids" ids] by auto

subsection \<open>The adapter on documents of another shape\<close>





subsection \<open>The diff query\<close>















subsection \<open>Idempotence of the normaliser\<close>

lemma sub_whitespace_Nil_iff: "sub_whitespace lib t = [] \<longleftrightarrow> t = []"
  by (cases t) auto

lemma sub_whitespace_hd:
  "t \<noteq> [] \<Longrightarrow> \<not> isspace lib (hd t) \<Longrightarrow> hd (sub_whitespace lib t) = hd t"
  by (cases t) auto

lemma dropWhile_fix: "xs = [] \<or> \<not> P (hd xs) \<Longrightarrow> dropWhile P xs = xs"
  by (cases xs) auto

lemma dropWhile_hd: "dropWhile P xs = [] \<or> \<not> P (hd (dropWhile P xs))"
  using hd_dropWhile[of P xs] by blast

lemma sub_whitespace_no_leading:
  "t = [] \<or> \<not> isspace lib (hd t) \<Longrightarrow>
   dropWhile (isspace lib) (sub_whitespace lib t) = sub_whitespace lib t"
  by (cases t) auto

lemma sub_whitespace_idem:
  "sub_whitespace lib (sub_whitespace lib t) = sub_whitespace lib t"
proof (induction lib t rule: sub_whitespace.induct)
  case (1 lib)
  then show ?case by simp
next
  case (2 lib c cs)
  show ?case
  proof (cases "isspace lib c")
    case True
    let ?R = "sub_whitespace lib (dropWhile (isspace lib) cs)"
    have d: "dropWhile (isspace lib) ?R = ?R"
      by (rule sub_whitespace_no_leading) (rule dropWhile_hd)
    have ih: "sub_whitespace lib ?R = ?R" using 2(1)[OF True] .
    from True d ih show ?thesis by simp
  next
    case False
    with 2(2) show ?thesis by simp
  qed
qed


lemma last_dropWhile: "dropWhile P xs \<noteq> [] \<Longrightarrow> last (dropWhile P xs) = last xs"
  by (induction xs) (auto split: if_splits)

lemma strip_trimmed: "trimmed lib (strip lib x)"
proof -
  define a where "a = dropWhile (isspace lib) x"
  define b where "b = dropWhile (isspace lib) (rev a)"
  have s: "strip lib x = rev b" by (simp add: strip_def a_def b_def)
  show ?thesis
  proof (cases "b = []")
    case True
    with s show ?thesis by (simp add: trimmed_def)
  next
    case False
    then have hb: "\<not> isspace lib (hd b)" unfolding b_def using hd_dropWhile by blast
    from False have "rev a \<noteq> []" unfolding b_def by auto
    then have an: "a \<noteq> []" by simp
    then have ha: "\<not> isspace lib (hd a)" unfolding a_def using hd_dropWhile by blast
    have "last b = last (rev a)" using False unfolding b_def by (rule last_dropWhile)
    also have "\<dots> = hd a" using an by (simp add: last_rev)
    finally have lb: "\<not> isspace lib (last b)" using ha by simp
    from False hb lb show ?thesis unfolding s trimmed_def by (simp add: hd_rev last_rev)
  qed
qed

lemma strip_fix: "trimmed lib t \<Longrightarrow> strip lib t = t"
proof -
  assume t: "trimmed lib t"
  then have 1: "dropWhile (isspace lib) t = t" unfolding trimmed_def by (intro dropWhile_fix) auto
  from t have "rev t = [] \<or> \<not> isspace lib (hd (rev t))"
    unfolding trimmed_def by (auto simp: hd_rev)
  then have 2: "dropWhile (isspace lib) (rev t) = rev t" by (rule dropWhile_fix)
  show ?thesis by (simp add: strip_def 1 2)
qed

lemma sub_whitespace_last:
  "t \<noteq> [] \<Longrightarrow> \<not> isspace lib (last t) \<Longrightarrow> last (sub_whitespace lib t) = last t"
proof (induction lib t rule: sub_whitespace.induct)
  case (1 lib)
  then show ?case by simp
next
  case (2 lib c cs)
  show ?case
  proof (cases "isspace lib c")
    case True
    let ?d = "dropWhile (isspace lib) cs"
    from True 2(4) have csn: "cs \<noteq> []" by auto
    with 2(4) have lcs: "\<not> isspace lib (last cs)" by simp
    have dn: "?d \<noteq> []"
    proof
      assume "?d = []"
      then have "\<forall>x \<in> set cs. isspace lib x" by (simp add: dropWhile_eq_Nil_conv)
      with csn lcs show False using last_in_set by blast
    qed
    then have ld: "last ?d = last cs" by (rule last_dropWhile)
    have l1: "last (sub_whitespace lib ?d) = last cs"
      using 2(1)[OF True dn] lcs ld by simp
    have n1: "sub_whitespace lib ?d \<noteq> []" using dn by (simp add: sub_whitespace_Nil_iff)
    have "sub_whitespace lib (c # cs) = 32 # sub_whitespace lib ?d" using True by simp
    then have "last (sub_whitespace lib (c # cs)) = last (sub_whitespace lib ?d)"
      using n1 by simp
    also have "\<dots> = last (c # cs)" using l1 csn by simp
    finally show ?thesis .
  next
    case False
    show ?thesis
    proof (cases "cs = []")
      case True
      with False show ?thesis by simp
    next
      case cs: False
      with 2(4) have "\<not> isspace lib (last cs)" by simp
      from 2(2)[OF False cs this] False cs show ?thesis by (simp add: sub_whitespace_Nil_iff)
    qed
  qed
qed

lemma sub_whitespace_trimmed: "trimmed lib t \<Longrightarrow> trimmed lib (sub_whitespace lib t)"
  unfolding trimmed_def
  by (auto simp: sub_whitespace_Nil_iff sub_whitespace_hd sub_whitespace_last)

lemma sub_whitespace_set: "set (sub_whitespace lib t) \<subseteq> insert 32 (set t)"
proof (induction lib t rule: sub_whitespace.induct)
  case (1 lib)
  then show ?case by simp
next
  case (2 lib c cs)
  show ?case
  proof (cases "isspace lib c")
    case True
    have "set (dropWhile (isspace lib) cs) \<subseteq> set cs" by (rule set_dropWhileD[THEN subsetI])
    with 2(1)[OF True] True show ?thesis by auto
  next
    case False
    with 2(2) show ?thesis by auto
  qed
qed

lemma strip_set: "set (strip lib t) \<subseteq> set t"
proof -
  have "set (dropWhile (isspace lib) (rev (dropWhile (isspace lib) t)))
        \<subseteq> set (rev (dropWhile (isspace lib) t))" by (rule set_dropWhileD[THEN subsetI])
  moreover have "set (dropWhile (isspace lib) t) \<subseteq> set t" by (rule set_dropWhileD[THEN subsetI])
  ultimately show ?thesis by (auto simp: strip_def)
qed

lemma normalize_text_fixpoint:
  assumes "strip lib y = y" "lower lib y = y" "strip_accents lib y = y"
    and "sub_whitespace lib y = y"
  shows "normalize_text lib False y = y"
  using assms by (simp add: normalize_text_def)

lemma normalize_text_stable:
  assumes "strip lib (normalize_text lib False x) = normalize_text lib False x"
    and "lower lib (normalize_text lib False x) = normalize_text lib False x"
    and "strip_accents lib (normalize_text lib False x) = normalize_text lib False x"
  shows "normalize_text lib False (normalize_text lib False x) = normalize_text lib False x"
proof -
  have "sub_whitespace lib (normalize_text lib False x) = normalize_text lib False x"
    by (simp add: normalize_text_def sub_whitespace_idem)
  with assms show ?thesis by (rule normalize_text_fixpoint)
qed

lemma ascii_lower_idem: "ascii_lower (ascii_lower c) = ascii_lower c"
  by (simp add: ascii_lower_def)

lemma ascii_lower_bound: "c < 128 \<Longrightarrow> ascii_lower c < 128"
  by (simp add: ascii_lower_def)

lemma poa_lower: "python_on_ascii lib \<Longrightarrow> ascii_text t \<Longrightarrow> lower lib t = map ascii_lower t"
  unfolding python_on_ascii_def by blast

lemma poa_nfkd: "python_on_ascii lib \<Longrightarrow> ascii_text t \<Longrightarrow> nfkd lib t = t"
  unfolding python_on_ascii_def by blast

lemma poa_combining: "python_on_ascii lib \<Longrightarrow> c < 128 \<Longrightarrow> combining lib c = 0"
  unfolding python_on_ascii_def by blast

lemma poa_letters:
  "python_on_ascii lib \<Longrightarrow> 65 \<le> c \<Longrightarrow> c \<le> 90 \<Longrightarrow> \<not> isspace lib c \<and> \<not> isspace lib (c + 32)"
  unfolding python_on_ascii_def by blast

lemma ascii_text_iff: "ascii_text t = (\<forall>c \<in> set t. c < 128)"
  by (simp add: ascii_text_def list_all_iff)

lemma strip_accents_ascii:
  assumes "python_on_ascii lib" "ascii_text t"
  shows "strip_accents lib t = t"
proof -
  have "\<forall>c \<in> set t. combining lib c = 0"
    using assms poa_combining[OF assms(1)] by (simp add: ascii_text_iff)
  then have "filter (\<lambda>ch. combining lib ch = 0) t = t" by (simp add: filter_id_conv)
  then show ?thesis using poa_nfkd[OF assms] by (simp add: strip_accents_def)
qed

lemma normalize_text_ascii:
  assumes lib: "python_on_ascii lib" and x: "ascii_text x"
  shows "normalize_text lib False x = sub_whitespace lib (map ascii_lower (strip lib x))"
    and "ascii_text (normalize_text lib False x)"
proof -
  have a1: "ascii_text (strip lib x)"
    using x strip_set[of lib x] by (auto simp: ascii_text_iff)
  have l: "lower lib (strip lib x) = map ascii_lower (strip lib x)"
    using lib a1 by (rule poa_lower)
  have a2: "ascii_text (map ascii_lower (strip lib x))"
    using a1 by (auto simp: ascii_text_iff ascii_lower_bound)
  have sa: "strip_accents lib (map ascii_lower (strip lib x)) = map ascii_lower (strip lib x)"
    using lib a2 by (rule strip_accents_ascii)
  show eq: "normalize_text lib False x = sub_whitespace lib (map ascii_lower (strip lib x))"
    by (simp add: normalize_text_def l sa)
  have "ascii_text (sub_whitespace lib (map ascii_lower (strip lib x)))"
    using a2 sub_whitespace_set[of lib "map ascii_lower (strip lib x)"]
    by (auto simp: ascii_text_iff)
  then show "ascii_text (normalize_text lib False x)" unfolding eq .
qed

lemma isspace_ascii_lower:
  assumes "python_on_ascii lib"
  shows "isspace lib (ascii_lower c) = isspace lib c"
proof (cases "65 \<le> c \<and> c \<le> 90")
  case True
  then show ?thesis using poa_letters[OF assms, of c] by (simp add: ascii_lower_def)
next
  case False
  then have "ascii_lower c = c" by (auto simp: ascii_lower_def)
  then show ?thesis by simp
qed

lemma map_lower_trimmed:
  assumes "python_on_ascii lib" "trimmed lib t"
  shows "trimmed lib (map ascii_lower t)"
proof (cases "t = []")
  case True
  then show ?thesis by (simp add: trimmed_def)
next
  case False
  with assms(2) show ?thesis
    by (simp add: trimmed_def hd_map last_map isspace_ascii_lower[OF assms(1)])
qed

lemma normalize_text_ascii_idem:
  assumes lib: "python_on_ascii lib" and x: "ascii_text x"
  shows "normalize_text lib False (normalize_text lib False x) = normalize_text lib False x"
proof -
  define y where "y = normalize_text lib False x"
  have eq: "y = sub_whitespace lib (map ascii_lower (strip lib x))"
    unfolding y_def using lib x by (rule normalize_text_ascii(1))
  have ay: "ascii_text y" unfolding y_def using lib x by (rule normalize_text_ascii(2))
  have "trimmed lib y" unfolding eq
    by (intro sub_whitespace_trimmed map_lower_trimmed lib strip_trimmed)
  then have 1: "strip lib y = y" by (rule strip_fix)
  have "\<forall>c \<in> set y. ascii_lower c = c"
  proof
    fix c assume "c \<in> set y"
    then have "c = 32 \<or> c \<in> ascii_lower ` set (strip lib x)"
      using sub_whitespace_set[of lib "map ascii_lower (strip lib x)"] unfolding eq by auto
    then show "ascii_lower c = c"
    proof
      assume "c = 32" then show ?thesis by (simp add: ascii_lower_def)
    next
      assume "c \<in> ascii_lower ` set (strip lib x)"
      then show ?thesis by (auto simp: ascii_lower_idem)
    qed
  qed
  then have "map ascii_lower y = y" by (simp add: map_idI)
  then have 2: "lower lib y = y" using poa_lower[OF lib ay] by simp
  have 3: "strip_accents lib y = y" using lib ay by (rule strip_accents_ascii)
  show ?thesis using normalize_text_stable[of lib x] 1 2 3 unfolding y_def by simp
qed

lemma python_on_ascii_lib0: "python_on_ascii lib0"
proof -
  have "\<And>t. ascii_text t \<Longrightarrow> concat (map (\<lambda>c. if c = 168 then [32, 776]
                                      else if c = 178 then [50]
                                      else if c = 203 then [69, 776]
                                      else if c = 235 then [101, 776]
                                      else [c]) t) = t"
  proof -
    fix t :: str assume "ascii_text t"
    then show "concat (map (\<lambda>c. if c = 168 then [32, 776]
                                      else if c = 178 then [50]
                                      else if c = 203 then [69, 776]
                                      else if c = 235 then [101, 776]
                                      else [c]) t) = t"
      by (induction t) (auto simp: ascii_text_def)
  qed
  moreover have "\<And>t. ascii_text t \<Longrightarrow>
      map (\<lambda>c. if (65 \<le> c \<and> c \<le> 90) \<or> c = 203 then c + 32 else c) t = map ascii_lower t"
    by (auto simp: ascii_text_def list_all_iff ascii_lower_def)
  ultimately show ?thesis
    by (auto simp: python_on_ascii_def lib0_def py_isspace_def)
qed

text \<open>
  C6 (amended). \<open>normalize(normalize(x)) = normalize(x)\<close> holds for every text \<open>x\<close> whose
  normal form is left as it is by \<open>strip\<close>, by \<open>lower\<close> and by the accent stripping, and so
  for every ASCII text. (The whitespace collapse is idempotent by itself; the first three
  steps are not, taken together: see the counterexample.)
\<close>

theorem normalize_text_idempotent_if_stable:
  "(strip lib (normalize_text lib False x) = normalize_text lib False x \<and>
    lower lib (normalize_text lib False x) = normalize_text lib False x \<and>
    strip_accents lib (normalize_text lib False x) = normalize_text lib False x
    \<longrightarrow> normalize_text lib False (normalize_text lib False x) = normalize_text lib False x)
   \<and> (python_on_ascii lib \<and> ascii_text x
    \<longrightarrow> normalize_text lib False (normalize_text lib False x) = normalize_text lib False x)"
  using normalize_text_stable[of lib x] normalize_text_ascii_idem[of lib x] by blast

theorem normalize_text_idempotent_if_stable_witness:
  "normalize_text lib0 False [32, 77, 105, 99, 104, 97, 235, 108, 32] = u ''michael''
   \<and> normalize_text lib0 False (normalize_text lib0 False [32, 77, 105, 99, 104, 97, 235, 108, 32])
     = normalize_text lib0 False [32, 77, 105, 99, 104, 97, 235, 108, 32]
   \<and> python_on_ascii lib0 \<and> ascii_text (u ''John   Doe'')
   \<and> normalize_text lib0 False (u ''John   Doe'') = u ''john doe''
   \<and> normalize_text lib0 False (normalize_text lib0 False (u ''John   Doe''))
     = normalize_text lib0 False (u ''John   Doe'')"
proof -
  have n: "normalize_text lib0 False [32, 77, 105, 99, 104, 97, 235, 108, 32] = u ''michael''"
    by (simp add: normalize_text_def strip_def strip_accents_def lib0_def py_isspace_def u_def)
  have m: "normalize_text lib0 False (u ''michael'') = u ''michael''"
    by (simp add: normalize_text_def strip_def strip_accents_def lib0_def py_isspace_def u_def)
  have s: "strip lib0 (u ''michael'') = u ''michael''"
    "lower lib0 (u ''michael'') = u ''michael''"
    "strip_accents lib0 (u ''michael'') = u ''michael''"
    by (simp_all add: strip_def strip_accents_def lib0_def py_isspace_def u_def)
  have a: "ascii_text (u ''John   Doe'')" by (simp add: ascii_text_def u_def)
  have j: "normalize_text lib0 False (u ''John   Doe'') = u ''john doe''"
    by (simp add: normalize_text_def strip_def strip_accents_def lib0_def py_isspace_def u_def)
  from normalize_text_idempotent_if_stable[of lib0 "[32, 77, 105, 99, 104, 97, 235, 108, 32]"]
    normalize_text_idempotent_if_stable[of lib0 "u ''John   Doe''"]
    n s a j python_on_ascii_lib0
  show ?thesis by simp
qed

text \<open>
  The claim as stated fails: the diaeresis U+00A8 is not whitespace, so \<open>strip\<close> keeps
  it; NFKD turns it into a space and a combining mark, the mark is dropped, and the normal
  form is a single space, whose own normal form is the empty text.
\<close>

theorem normalize_text_not_idempotent:
  "normalize_text lib0 False [168] = [32]
   \<and> normalize_text lib0 False (normalize_text lib0 False [168])
       \<noteq> normalize_text lib0 False [168]"
  by (simp add: normalize_text_def strip_def strip_accents_def lib0_def py_isspace_def)

subsection \<open>The source's steps and the specification's steps\<close>

lemma drop_trailing_Cons:
  "rev (dropWhile P (rev (x # xs))) =
     (if (\<forall>y \<in> set xs. P y) \<and> P x then [] else x # rev (dropWhile P (rev xs)))"
  by (auto simp: dropWhile_append dropWhile_eq_Nil_conv)

lemma drop_trailing_all: "\<forall>y \<in> set xs. P y \<Longrightarrow> rev (dropWhile P (rev xs)) = []"
  by (simp add: dropWhile_eq_Nil_conv)

lemma drop_both_ends_commute:
  "dropWhile P (rev (dropWhile P (rev t))) = rev (dropWhile P (rev (dropWhile P t)))"
proof (induction t)
  case Nil
  then show ?case by simp
next
  case (Cons x xs)
  show ?case
  proof (cases "(\<forall>y \<in> set xs. P y) \<and> P x")
    case True
    have l: "rev (dropWhile P (rev (x # xs))) = []"
      unfolding drop_trailing_Cons using True by simp
    from True have d: "dropWhile P (x # xs) = []" by (simp add: dropWhile_eq_Nil_conv)
    show ?thesis unfolding l d by simp
  next
    case False
    have l: "rev (dropWhile P (rev (x # xs))) = x # rev (dropWhile P (rev xs))"
      unfolding drop_trailing_Cons using False by simp
    show ?thesis
    proof (cases "P x")
      case True
      then have "dropWhile P (x # rev (dropWhile P (rev xs))) = dropWhile P (rev (dropWhile P (rev xs)))"
        by simp
      also have "\<dots> = rev (dropWhile P (rev (dropWhile P xs)))" by (rule Cons.IH)
      also have "dropWhile P xs = dropWhile P (x # xs)" using True by simp
      finally show ?thesis unfolding l .
    next
      case px: False
      then have "dropWhile P (x # rev (dropWhile P (rev xs))) = x # rev (dropWhile P (rev xs))"
        by simp
      also have "\<dots> = rev (dropWhile P (rev (x # xs)))" using l by simp
      also have "x # xs = dropWhile P (x # xs)" using px by simp
      finally show ?thesis unfolding l .
    qed
  qed
qed

lemma trim_eq_strip: "trim lib t = strip lib t"
  unfolding trim_def strip_def by (rule drop_both_ends_commute)

lemma sub_whitespace_split:
  "sub_whitespace lib t =
     takeWhile (\<lambda>y. \<not> isspace lib y) t @ sub_whitespace lib (dropWhile (\<lambda>y. \<not> isspace lib y) t)"
  by (induction t) auto

lemma collapse_whitespace_eq: "collapse_whitespace lib t = sub_whitespace lib t"
proof (induction "isspace lib" t rule: runs.induct)
  case 1
  then show ?case by (simp add: collapse_whitespace_def)
next
  case (2 c cs)
  show ?case
  proof (cases "isspace lib c")
    case True
    then have p: "(\<lambda>y. isspace lib y = isspace lib c) = isspace lib" by auto
    from 2 True show ?thesis by (simp add: collapse_whitespace_def p)
  next
    case False
    then have p: "(\<lambda>y. isspace lib y = isspace lib c) = (\<lambda>y. \<not> isspace lib y)" by auto
    have "sub_whitespace lib (c # cs) = c # sub_whitespace lib cs" using False by simp
    also have "\<dots> = c # takeWhile (\<lambda>y. \<not> isspace lib y) cs
                   @ sub_whitespace lib (dropWhile (\<lambda>y. \<not> isspace lib y) cs)"
      using sub_whitespace_split[of lib cs] by simp
    finally show ?thesis using 2 False by (simp add: collapse_whitespace_def p)
  qed
qed

lemma sub_repeats_short_run:
  assumes "length (takeWhile (\<lambda>x. x = c) cs) < 2"
  shows "sub_repeats cs = takeWhile (\<lambda>x. x = c) cs @ sub_repeats (dropWhile (\<lambda>x. x = c) cs)"
proof (cases cs)
  case Nil
  then show ?thesis by simp
next
  case (Cons d ds)
  show ?thesis
  proof (cases "d = c")
    case False
    with Cons show ?thesis by simp
  next
    case True
    with Cons assms have t: "takeWhile (\<lambda>x. x = c) ds = []" by simp
    then have d: "dropWhile (\<lambda>x. x = c) ds = ds"
      using takeWhile_dropWhile_id[of "\<lambda>x. x = c" ds] by simp
    from Cons True t d show ?thesis by simp
  qed
qed

lemma collapse_repeated_eq: "10 \<notin> set t \<Longrightarrow> collapse_repeated t = sub_repeats t"
proof (induction "\<lambda>c::nat. c" t rule: runs.induct)
  case 1
  then show ?case by (simp add: collapse_repeated_def)
next
  case (2 c cs)
  have "set (dropWhile (\<lambda>y. y = c) cs) \<subseteq> set cs" by (rule set_dropWhileD[THEN subsetI])
  with 2(2) have "10 \<notin> set (dropWhile (\<lambda>y. y = c) cs)" by auto
  then have ih: "collapse_repeated (dropWhile (\<lambda>y. y = c) cs) = sub_repeats (dropWhile (\<lambda>y. y = c) cs)"
    by (rule 2(1))
  from 2(2) have c10: "c \<noteq> 10" by auto
  show ?case
  proof (cases "2 \<le> length (takeWhile (\<lambda>x. x = c) cs)")
    case True
    with ih c10 show ?thesis by (simp add: collapse_repeated_def)
  next
    case False
    then have "length (takeWhile (\<lambda>x. x = c) cs) < 2" by simp
    from sub_repeats_short_run[OF this] False ih c10 show ?thesis
      by (simp add: collapse_repeated_def)
  qed
qed

lemma sub_whitespace_no_space:
  "c \<in> set (sub_whitespace lib t) \<Longrightarrow> c = 32 \<or> \<not> isspace lib c"
proof (induction lib t rule: sub_whitespace.induct)
  case (1 lib)
  then show ?case by simp
next
  case (2 lib x xs)
  then show ?case by (cases "isspace lib x") auto
qed

lemma sub_whitespace_no_newline: "isspace lib 10 \<Longrightarrow> 10 \<notin> set (sub_whitespace lib t)"
  using sub_whitespace_no_space[of 10 lib t] by auto

text \<open>
  C3 (amended). \<open>normalize_text\<close> is the composition of the specification's five steps, in
  its order, when step 2 is lowercasing with \<open>str.lower\<close> (not case folding), the
  decomposition of step 3 is the compatibility decomposition NFKD (not the canonical one)
  and the characters step 3 drops are those of a non-zero canonical combining class (a
  combining mark of class 0 is kept): trim, lowercase, decompose and drop, turn every run
  of whitespace into one space, and, only when \<open>collapse_repeats\<close> is set, turn every
  run of three or more identical characters into one. \<open>normalize_seed\<close> and
  \<open>normalize_variation\<close> are the same function, and without the flag, as the engine calls
  them, they stop after step 4. (For the last step the newline has to be whitespace, as
  it is in Python.)
\<close>

theorem normalize_text_is_spec_steps:
  "((collapse_repeats \<longrightarrow> isspace lib 10) \<longrightarrow>
      normalize_text lib collapse_repeats x
        = spec_normalize lib (lower lib) (nfkd lib) (\<lambda>c. combining lib c \<noteq> 0)
            collapse_repeats x)
   \<and> normalize_seed lib collapse_repeats x = normalize_text lib collapse_repeats x
   \<and> normalize_variation lib collapse_repeats x = normalize_text lib collapse_repeats x
   \<and> normalize_text lib False x
       = collapse_whitespace lib
           (drop_marks (\<lambda>c. combining lib c \<noteq> 0) (nfkd lib (lower lib (trim lib x))))"
proof -
  have 4: "normalize_text lib False x
       = collapse_whitespace lib
           (drop_marks (\<lambda>c. combining lib c \<noteq> 0) (nfkd lib (lower lib (trim lib x))))"
    by (simp add: normalize_text_def strip_accents_def drop_marks_def trim_eq_strip
        collapse_whitespace_eq)
  have 1: "normalize_text lib collapse_repeats x
        = spec_normalize lib (lower lib) (nfkd lib) (\<lambda>c. combining lib c \<noteq> 0)
            collapse_repeats x"
    if "collapse_repeats \<longrightarrow> isspace lib 10"
  proof (cases collapse_repeats)
    case False
    then show ?thesis using 4 by (simp add: spec_normalize_def)
  next
    case True
    with that have "isspace lib 10" by simp
    then have "10 \<notin> set (sub_whitespace lib (strip_accents lib (lower lib (strip lib x))))"
      by (rule sub_whitespace_no_newline)
    then have "collapse_repeated (sub_whitespace lib (strip_accents lib (lower lib (strip lib x))))
        = sub_repeats (sub_whitespace lib (strip_accents lib (lower lib (strip lib x))))"
      by (rule collapse_repeated_eq)
    with True show ?thesis
      by (simp add: normalize_text_def spec_normalize_def strip_accents_def drop_marks_def
          trim_eq_strip collapse_whitespace_eq)
  qed
  from 1 4 show ?thesis by (simp add: normalize_seed_def normalize_variation_def)
qed

theorem normalize_text_is_spec_steps_witness:
  "isspace lib0 10
   \<and> normalize_text lib0 True (u '' Looool  John '') = u ''lol john''
   \<and> spec_normalize lib0 (lower lib0) (nfkd lib0) (\<lambda>c. combining lib0 c \<noteq> 0) True
        (u '' Looool  John '') = u ''lol john''
   \<and> normalize_seed lib0 False (u '' Looool  John '') = u ''looool john''"
proof -
  have s: "isspace lib0 10" by (simp add: lib0_def py_isspace_def)
  have n: "normalize_text lib0 True (u '' Looool  John '') = u ''lol john''"
    by (simp add: normalize_text_def strip_def strip_accents_def lib0_def py_isspace_def u_def)
  have f: "normalize_text lib0 False (u '' Looool  John '') = u ''looool john''"
    by (simp add: normalize_text_def strip_def strip_accents_def lib0_def py_isspace_def u_def)
  from normalize_text_is_spec_steps[of True lib0 "u '' Looool  John ''"]
       normalize_text_is_spec_steps[of False lib0 "u '' Looool  John ''"] s n f
  show ?thesis by simp
qed

text \<open>
  The claim as stated fails, in each of its three Unicode notions. With the canonical
  decomposition (NFD) the superscript two U+00B2 stays as it is, while the source's NFKD
  makes it the digit 2. Case folding makes the sharp s U+00DF "ss", while the source's
  \<open>lower\<close> keeps it. And dropping all combining marks removes the enclosing circle
  U+20DD after the letter a, while the source, which drops the characters of a non-zero
  combining class, keeps it.
\<close>

theorem normalize_text_is_not_nfd:
  "normalize_text lib0 False [178] = [50]
   \<and> spec_normalize lib0 casefold0 nfd0 is_mark0 False [178] = [178]
   \<and> normalize_text lib0 False [178] \<noteq> spec_normalize lib0 casefold0 nfd0 is_mark0 False [178]
   \<and> normalize_text lib0 False [223] = [223]
   \<and> spec_normalize lib0 casefold0 nfd0 is_mark0 False [223] = [115, 115]
   \<and> normalize_text lib0 False [97, 8413] = [97, 8413]
   \<and> spec_normalize lib0 casefold0 nfd0 is_mark0 False [97, 8413] = [97]"
  by (simp add: normalize_text_def strip_def strip_accents_def lib0_def py_isspace_def
      spec_normalize_def trim_def drop_marks_def collapse_whitespace_def nfd0_def
      casefold0_def is_mark0_def)

subsection \<open>What the get-or-create operations leave alone\<close>

lemma scalar_one_cases:
  "(\<exists>e. scalar_one_or_none xs = Inl e \<and> 2 \<le> length xs)
   \<or> (scalar_one_or_none xs = Inr None \<and> xs = [])
   \<or> (\<exists>x. scalar_one_or_none xs = Inr (Some x) \<and> xs = [x])"
  by (cases xs rule: scalar_one_or_none.cases) auto

lemma get_or_create_seed_frame:
  assumes "get_or_create_seed raw nrm h st = Inr (seed, st')"
  shows "committed st' = committed st"
    and "variations (working st') = variations (working st)"
    and "miners (working st') = miners (working st)"
    and "batches (working st') = batches (working st)"
    and "source_files (working st') = source_files (working st)"
    and "observations (working st') = observations (working st)"
    and "observations_inserted (metrics st') = observations_inserted (metrics st)"
    and "files_processed (metrics st') = files_processed (metrics st)"
    and "files_skipped (metrics st') = files_skipped (metrics st)"
    and "invalid_records (metrics st') = invalid_records (metrics st)"
  using assms
  by (auto simp: get_or_create_seed_def Let_def insert_unique_def
      split: sum.splits option.splits if_splits)

lemma get_or_create_variation_frame:
  assumes "get_or_create_variation seed raw nrm h st = Inr (var, st')"
  shows "committed st' = committed st"
    and "seeds (working st') = seeds (working st)"
    and "miners (working st') = miners (working st)"
    and "batches (working st') = batches (working st)"
    and "source_files (working st') = source_files (working st)"
    and "observations (working st') = observations (working st)"
    and "observations_inserted (metrics st') = observations_inserted (metrics st)"
    and "files_processed (metrics st') = files_processed (metrics st)"
    and "files_skipped (metrics st') = files_skipped (metrics st)"
    and "invalid_records (metrics st') = invalid_records (metrics st)"
  using assms
  by (auto simp: get_or_create_variation_def Let_def insert_unique_def
      split: sum.splits option.splits if_splits)

lemma get_or_create_miner_frame:
  assumes "get_or_create_miner ext st = Inr (miner, st')"
  shows "committed st' = committed st"
    and "seeds (working st') = seeds (working st)"
    and "variations (working st') = variations (working st)"
    and "batches (working st') = batches (working st)"
    and "source_files (working st') = source_files (working st)"
    and "observations (working st') = observations (working st)"
    and "metrics st' = metrics st"
  using assms
  by (auto simp: get_or_create_miner_def Let_def insert_unique_def
      split: sum.splits option.splits if_splits)

lemma add_observation_frame:
  "committed (add_observation lib seed var miner bid sf rec st) = committed st"
  "seeds (working (add_observation lib seed var miner bid sf rec st)) = seeds (working st)"
  "variations (working (add_observation lib seed var miner bid sf rec st)) = variations (working st)"
  "miners (working (add_observation lib seed var miner bid sf rec st)) = miners (working st)"
  "batches (working (add_observation lib seed var miner bid sf rec st)) = batches (working st)"
  "source_files (working (add_observation lib seed var miner bid sf rec st)) = source_files (working st)"
  "metrics (add_observation lib seed var miner bid sf rec st) = metrics st"
  "length (observations (working (add_observation lib seed var miner bid sf rec st)))
     = Suc (length (observations (working st)))"
  by (simp_all add: add_observation_def Let_def)


subsection \<open>One record\<close>

lemma ingest_record_valid_cases:
  assumes v: "fst (validate_record rec)"
    and r: "ingest_record lib dry bid sf rec (st, n) = Inr (st', n')"
  obtains seed st1 var st2 miner st3 where
    "get_or_create_seed (str_val (py_get rec (u ''seed'')))
        (normalize_seed lib False (str_val (py_get rec (u ''seed''))))
        (md5_hex lib (normalize_seed lib False (str_val (py_get rec (u ''seed''))))) st
       = Inr (seed, st1)"
    "get_or_create_variation seed (str_val (py_get rec (u ''variation'')))
        (normalize_variation lib False (str_val (py_get rec (u ''variation''))))
        (md5_hex lib (normalize_variation lib False (str_val (py_get rec (u ''variation''))))) st1
       = Inr (var, st2)"
    "(if truthy (py_get rec (u ''miner_ext_id''))
      then get_or_create_miner (py_get rec (u ''miner_ext_id'')) st2
      else Inr (None, st2)) = Inr (miner, st3)"
    "st' = (if dry then st3 else add_observation lib seed var miner bid sf rec st3)
            \<lparr>metrics := (metrics st3)\<lparr>observations_inserted :=
                           observations_inserted (metrics st3) + 1\<rparr>\<rparr>"
    "n' = n + 1"
  using v r
  by (auto simp: ingest_record_def Let_def add_observation_frame
      split: sum.splits prod.splits if_splits)

lemma miner_step_frame:
  assumes "(if c then get_or_create_miner ext st else Inr (None, st)) = Inr (miner, st')"
  shows "committed st' = committed st"
    and "seeds (working st') = seeds (working st)"
    and "variations (working st') = variations (working st)"
    and "batches (working st') = batches (working st)"
    and "source_files (working st') = source_files (working st)"
    and "observations (working st') = observations (working st)"
    and "metrics st' = metrics st"
  using assms get_or_create_miner_frame[of ext st miner st']
  by (auto split: if_splits)

lemma ingest_record_frame:
  assumes r: "ingest_record lib dry bid sf rec (st, n) = Inr (st', n')"
  shows "committed st' = committed st
    \<and> batches (working st') = batches (working st)
    \<and> source_files (working st') = source_files (working st)
    \<and> files_processed (metrics st') = files_processed (metrics st)
    \<and> files_skipped (metrics st') = files_skipped (metrics st)
    \<and> observations_inserted (metrics st')
         = observations_inserted (metrics st) + (if fst (validate_record rec) then 1 else 0)
    \<and> invalid_records (metrics st')
         = invalid_records (metrics st) + (if fst (validate_record rec) then 0 else 1)
    \<and> n' = n + (if fst (validate_record rec) then 1 else 0)
    \<and> length (observations (working st'))
         = length (observations (working st))
           + (if fst (validate_record rec) \<and> \<not> dry then 1 else 0)
    \<and> (dry \<longrightarrow> observations (working st') = observations (working st))"
proof (cases "fst (validate_record rec)")
  case False
  with r show ?thesis by (auto simp: ingest_record_def)
next
  case True
  from True r obtain seed st1 var st2 miner st3 where
    a: "get_or_create_seed (str_val (py_get rec (u ''seed'')))
        (normalize_seed lib False (str_val (py_get rec (u ''seed''))))
        (md5_hex lib (normalize_seed lib False (str_val (py_get rec (u ''seed''))))) st
       = Inr (seed, st1)"
    and b: "get_or_create_variation seed (str_val (py_get rec (u ''variation'')))
        (normalize_variation lib False (str_val (py_get rec (u ''variation''))))
        (md5_hex lib (normalize_variation lib False (str_val (py_get rec (u ''variation''))))) st1
       = Inr (var, st2)"
    and c: "(if truthy (py_get rec (u ''miner_ext_id''))
      then get_or_create_miner (py_get rec (u ''miner_ext_id'')) st2
      else Inr (None, st2)) = Inr (miner, st3)"
    and d: "st' = (if dry then st3 else add_observation lib seed var miner bid sf rec st3)
            \<lparr>metrics := (metrics st3)\<lparr>observations_inserted :=
                           observations_inserted (metrics st3) + 1\<rparr>\<rparr>"
    and e: "n' = n + 1"
    by (rule ingest_record_valid_cases)
  note fa = get_or_create_seed_frame[OF a]
  note fb = get_or_create_variation_frame[OF b]
  note fc = miner_step_frame[OF c]
  show ?thesis unfolding d e using True
    by (simp add: fa fb fc add_observation_frame)
qed

subsection \<open>The records of a file\<close>

lemma ingest_records_frame:
  "ingest_records lib dry bid sf recs (st, n) = Inr (st', n') \<Longrightarrow>
     committed st' = committed st
    \<and> batches (working st') = batches (working st)
    \<and> source_files (working st') = source_files (working st)
    \<and> files_processed (metrics st') = files_processed (metrics st)
    \<and> files_skipped (metrics st') = files_skipped (metrics st)
    \<and> observations_inserted (metrics st')
         = observations_inserted (metrics st) + length (filter (\<lambda>r. fst (validate_record r)) recs)
    \<and> invalid_records (metrics st')
         = invalid_records (metrics st) + length (filter (\<lambda>r. \<not> fst (validate_record r)) recs)
    \<and> n' = n + length (filter (\<lambda>r. fst (validate_record r)) recs)
    \<and> length (observations (working st'))
         = length (observations (working st))
           + (if dry then 0 else length (filter (\<lambda>r. fst (validate_record r)) recs))
    \<and> (dry \<longrightarrow> observations (working st') = observations (working st))"
proof (induction recs arbitrary: st n)
  case Nil
  then show ?case by simp
next
  case (Cons rec recs)
  from Cons.prems obtain st1 n1 where
    1: "ingest_record lib dry bid sf rec (st, n) = Inr (st1, n1)"
    and 2: "ingest_records lib dry bid sf recs (st1, n1) = Inr (st', n')"
    by (auto split: sum.splits)
  from ingest_record_frame[OF 1] Cons.IH[OF 2] show ?case by simp
qed

subsection \<open>One file\<close>

lemma find_source_file_count:
  "(find_source_file bid c w = Inr None \<longleftrightarrow> sf_count bid c w = 0)
   \<and> ((\<exists>r. find_source_file bid c w = Inr (Some r)) \<longleftrightarrow> sf_count bid c w = 1)
   \<and> ((\<exists>e. find_source_file bid c w = Inl e) \<longleftrightarrow> 2 \<le> sf_count bid c w)"
  unfolding find_source_file_def sf_count_def
  by (cases "filter (\<lambda>r. f_batch_id r = bid \<and> file_checksum r = c) (source_files w)"
      rule: scalar_one_or_none.cases) auto

lemma sf_count_set_record_count:
  "sf_count bid c (working (set_record_count fid n st)) = sf_count bid c (working st)"
proof -
  have "length (filter (\<lambda>r. f_batch_id r = bid \<and> file_checksum r = c)
          (map (\<lambda>r. if f_id r = fid then r\<lparr>record_count := Some n\<rparr> else r) xs))
        = length (filter (\<lambda>r. f_batch_id r = bid \<and> file_checksum r = c) xs)" for xs
    by (induction xs) auto
  then show ?thesis unfolding sf_count_def set_record_count_def by simp
qed

lemma set_record_count_frame:
  "committed (set_record_count fid n st) = committed st"
  "batches (working (set_record_count fid n st)) = batches (working st)"
  "seeds (working (set_record_count fid n st)) = seeds (working st)"
  "variations (working (set_record_count fid n st)) = variations (working st)"
  "miners (working (set_record_count fid n st)) = miners (working st)"
  "observations (working (set_record_count fid n st)) = observations (working st)"
  "metrics (set_record_count fid n st) = metrics st"
  by (simp_all add: set_record_count_def)

lemma add_source_file_frame:
  assumes "add_source_file bid p c st = (fid, st1)"
  shows "committed st1 = committed st"
    and "metrics st1 = metrics st"
    and "fid = next_id (map f_id (source_files (working st)))"
    and "working st1 = (working st)\<lparr>source_files := source_files (working st) @
           [\<lparr>f_id = fid, f_batch_id = bid, file_path = p, file_checksum = c,
             record_count = None\<rparr>]\<rparr>"
  using assms by (auto simp: add_source_file_def Let_def)

lemma process_file_dry:
  "process_file lib adapter True bid f c data st =
     (case ingest_records lib True bid None (adapter data) (st, 0) of
        Inl e \<Rightarrow> Inl e
      | Inr (st2, n) \<Rightarrow>
          Inr (st2\<lparr>metrics := (metrics st2)\<lparr>files_processed :=
                      files_processed (metrics st2) + 1\<rparr>\<rparr>))"
  by (simp add: process_file_def split: sum.splits prod.splits)

lemma process_file_wet:
  assumes "add_source_file bid (path f) c st = (fid, st1)"
  shows "process_file lib adapter False bid f c data st =
     (case ingest_records lib False bid (Some fid) (adapter data) (st1, 0) of
        Inl e \<Rightarrow> Inl e
      | Inr (st2, n) \<Rightarrow>
          Inr (commit ((set_record_count fid n st2)\<lparr>metrics := (metrics st2)\<lparr>files_processed :=
                      files_processed (metrics st2) + 1\<rparr>\<rparr>)))"
  using assms
  by (simp add: process_file_def set_record_count_frame split: sum.splits prod.splits)

lemma process_file_frame:
  assumes "process_file lib adapter dry bid f c data st = Inr st'"
  shows "batches (working st') = batches (working st)
     \<and> files_skipped (metrics st') = files_skipped (metrics st)
     \<and> files_processed (metrics st') = files_processed (metrics st) + 1
     \<and> observations_inserted (metrics st')
         = observations_inserted (metrics st)
           + length (filter (\<lambda>r. fst (validate_record r)) (adapter data))
     \<and> (dry \<longrightarrow> committed st' = committed st
          \<and> source_files (working st') = source_files (working st)
          \<and> observations (working st') = observations (working st))
     \<and> (\<not> dry \<longrightarrow> committed st' = working st')
     \<and> (\<forall>c'. sf_count bid c' (working st')
            = sf_count bid c' (working st) + (if \<not> dry \<and> c' = c then 1 else 0))"
proof (cases dry)
  case True
  with assms obtain st2 n where
    r: "ingest_records lib True bid None (adapter data) (st, 0) = Inr (st2, n)"
    and s: "st' = st2\<lparr>metrics := (metrics st2)\<lparr>files_processed :=
                      files_processed (metrics st2) + 1\<rparr>\<rparr>"
    by (auto simp: process_file_dry split: sum.splits)
  from ingest_records_frame[OF r] True show ?thesis unfolding s
    by (simp add: sf_count_def)
next
  case False
  obtain fid st1 where a: "add_source_file bid (path f) c st = (fid, st1)"
    by (cases "add_source_file bid (path f) c st")
  note fa = add_source_file_frame[OF a]
  from assms False obtain st2 n where
    r: "ingest_records lib False bid (Some fid) (adapter data) (st1, 0) = Inr (st2, n)"
    and s: "st' = commit ((set_record_count fid n st2)\<lparr>metrics := (metrics st2)\<lparr>files_processed :=
                      files_processed (metrics st2) + 1\<rparr>\<rparr>)"
    by (auto simp: process_file_wet[OF a] split: sum.splits)
  have w: "working st' = working (set_record_count fid n st2)"
    and m: "metrics st' = (metrics st2)\<lparr>files_processed := files_processed (metrics st2) + 1\<rparr>"
    and k: "committed st' = working st'"
    unfolding s by (simp_all add: commit_def)
  have c1: "sf_count bid c' (working st1)
      = sf_count bid c' (working st) + (if c' = c then 1 else 0)" for c'
    by (simp add: fa(4) sf_count_def)
  have c2: "sf_count bid c' (working st2) = sf_count bid c' (working st1)" for c'
    using ingest_records_frame[OF r] by (simp add: sf_count_def)
  have b1: "batches (working st1) = batches (working st)" by (simp add: fa(4))
  from ingest_records_frame[OF r] False show ?thesis
    unfolding w m k
    by (simp add: set_record_count_frame sf_count_set_record_count c1 c2 fa(2) b1)
qed


lemma ingest_file_skip:
  assumes "is_file f" "sf_count bid (compute_checksum lib f) (working st) = 1"
  shows "ingest_file lib adapter dry True bid f st = Inr (skipped 1 st)"
proof -
  from assms(2) obtain r where
    "find_source_file bid (compute_checksum lib f) (working st) = Inr (Some r)"
    using find_source_file_count[of bid "compute_checksum lib f" "working st"] by blast
  with assms(1) show ?thesis by (simp add: ingest_file_def skipped_def)
qed

lemma ingest_file_cases:
  assumes "ingest_file lib adapter dry resume bid f st = Inr st'"
  shows "(\<not> is_file f \<and> st' = st)
     \<or> (resume \<and> is_file f \<and> sf_count bid (compute_checksum lib f) (working st) = 1
         \<and> st' = skipped 1 st)
     \<or> (is_file f \<and> load_json lib f = None
         \<and> (resume \<longrightarrow> sf_count bid (compute_checksum lib f) (working st) = 0)
         \<and> st' = st\<lparr>metrics := (metrics st)\<lparr>invalid_records :=
                                 invalid_records (metrics st) + 1\<rparr>\<rparr>)
     \<or> (\<exists>data. is_file f \<and> load_json lib f = Some data
         \<and> (resume \<longrightarrow> sf_count bid (compute_checksum lib f) (working st) = 0)
         \<and> process_file lib adapter dry bid f (compute_checksum lib f) data st = Inr st')"
proof (cases "is_file f")
  case False
  with assms show ?thesis by (simp add: ingest_file_def)
next
  case True
  note fc = find_source_file_count[of bid "compute_checksum lib f" "working st"]
  show ?thesis
  proof (cases "resume \<and> sf_count bid (compute_checksum lib f) (working st) \<noteq> 0")
    case skip: True
    show ?thesis
    proof (cases "find_source_file bid (compute_checksum lib f) (working st)")
      case (Inl e)
      with assms True skip show ?thesis by (simp add: ingest_file_def)
    next
      case (Inr o1)
      with skip fc obtain r where o1: "o1 = Some r" by (cases o1) auto
      with Inr fc have "sf_count bid (compute_checksum lib f) (working st) = 1" by blast
      moreover from assms True skip Inr o1 have "st' = skipped 1 st"
        by (auto simp: ingest_file_def skipped_def)
      ultimately show ?thesis using True skip by simp
    qed
  next
    case noskip: False
    then have q: "(if resume then find_source_file bid (compute_checksum lib f) (working st)
                   else Inr None) = Inr None"
      using fc by auto
    show ?thesis
    proof (cases "load_json lib f")
      case None
      with assms True q noskip show ?thesis by (auto simp: ingest_file_def Let_def)
    next
      case (Some data)
      with assms True q have
        "process_file lib adapter dry bid f (compute_checksum lib f) data st = Inr st'"
        by (simp add: ingest_file_def Let_def)
      with True Some noskip show ?thesis by auto
    qed
  qed
qed

lemma ingest_file_frame:
  assumes r: "ingest_file lib adapter dry resume bid f st = Inr st'"
  shows "batches (working st') = batches (working st)
     \<and> (dry \<longrightarrow> committed st' = committed st)
     \<and> (\<not> dry \<longrightarrow> (committed st' = committed st \<and> working st' = working st)
                    \<or> committed st' = working st')
     \<and> (resume \<longrightarrow> (\<forall>c'. sf_count bid c' (working st) = 1
                         \<longrightarrow> sf_count bid c' (working st') = 1))
     \<and> (resume \<and> \<not> dry \<and> is_file f \<and> load_json lib f \<noteq> None
          \<longrightarrow> sf_count bid (compute_checksum lib f) (working st') = 1)"
  using ingest_file_cases[OF r]
proof (elim disjE exE conjE)
  assume "\<not> is_file f" "st' = st"
  then show ?thesis by simp
next
  assume "resume" "is_file f" "sf_count bid (compute_checksum lib f) (working st) = 1"
    "st' = skipped 1 st"
  then show ?thesis by (simp add: skipped_def)
next
  assume "is_file f" "load_json lib f = None"
    "st' = st\<lparr>metrics := (metrics st)\<lparr>invalid_records := invalid_records (metrics st) + 1\<rparr>\<rparr>"
  then show ?thesis by simp
next
  fix data
  assume f: "is_file f" and l: "load_json lib f = Some data"
    and z: "resume \<longrightarrow> sf_count bid (compute_checksum lib f) (working st) = 0"
    and p: "process_file lib adapter dry bid f (compute_checksum lib f) data st = Inr st'"
  from process_file_frame[OF p] have
    b: "batches (working st') = batches (working st)"
    and d: "dry \<longrightarrow> committed st' = committed st"
    and w: "\<not> dry \<longrightarrow> committed st' = working st'"
    and c: "\<And>c'. sf_count bid c' (working st')
            = sf_count bid c' (working st) + (if \<not> dry \<and> c' = compute_checksum lib f then 1 else 0)"
    by auto
  have 4: "resume \<longrightarrow> (\<forall>c'. sf_count bid c' (working st) = 1 \<longrightarrow> sf_count bid c' (working st') = 1)"
    using c z by auto
  have 5: "resume \<and> \<not> dry \<and> is_file f \<and> load_json lib f \<noteq> None
          \<longrightarrow> sf_count bid (compute_checksum lib f) (working st') = 1"
    using c z by auto
  from b d w 4 5 show ?thesis by blast
qed

subsection \<open>The files of a run\<close>

lemma ingest_files_dry_committed:
  "committed (snd (ingest_files lib adapter True resume bid fs st)) = committed st"
proof (induction fs arbitrary: st)
  case Nil
  then show ?case by simp
next
  case (Cons f fs)
  show ?case
  proof (cases "ingest_file lib adapter True resume bid f st")
    case (Inl e)
    then show ?thesis by simp
  next
    case (Inr st1)
    from ingest_file_frame[OF Inr] have "committed st1 = committed st" by simp
    with Cons.IH[of st1] Inr show ?thesis by simp
  qed
qed

lemma ingest_files_frame:
  assumes "ingest_files lib adapter False True bid fs st = (None, st')"
  shows "batches (working st') = batches (working st)
     \<and> ((committed st' = committed st \<and> working st' = working st)
          \<or> committed st' = working st')
     \<and> (\<forall>c'. sf_count bid c' (working st) = 1 \<longrightarrow> sf_count bid c' (working st') = 1)
     \<and> (\<forall>f \<in> set fs. is_file f \<and> load_json lib f \<noteq> None
          \<longrightarrow> sf_count bid (compute_checksum lib f) (working st') = 1)"
  using assms
proof (induction fs arbitrary: st)
  case Nil
  then show ?case by simp
next
  case (Cons f fs)
  from Cons.prems obtain st1 where
    1: "ingest_file lib adapter False True bid f st = Inr st1"
    and 2: "ingest_files lib adapter False True bid fs st1 = (None, st')"
    by (auto split: sum.splits)
  note f1 = ingest_file_frame[OF 1]
  note f2 = Cons.IH[OF 2]
  have a: "batches (working st') = batches (working st)" using f1 f2 by simp
  have b: "(committed st' = committed st \<and> working st' = working st)
          \<or> committed st' = working st'"
    using f1 f2 by auto
  have c: "\<forall>c'. sf_count bid c' (working st) = 1 \<longrightarrow> sf_count bid c' (working st') = 1"
    using f1 f2 by blast
  have d: "\<forall>g \<in> set (f # fs). is_file g \<and> load_json lib g \<noteq> None
          \<longrightarrow> sf_count bid (compute_checksum lib g) (working st') = 1"
    using f1 f2 by auto
  from a b c d show ?case by blast
qed

lemma ingest_files_skip_all:
  assumes "\<forall>f \<in> set fs. is_file f \<and> sf_count bid (compute_checksum lib f) (working st) = 1"
  shows "ingest_files lib adapter dry True bid fs st = (None, skipped (length fs) st)"
  using assms
proof (induction fs arbitrary: st)
  case Nil
  then show ?case by (simp add: skipped_def)
next
  case (Cons f fs)
  then have 1: "ingest_file lib adapter dry True bid f st = Inr (skipped 1 st)"
    by (intro ingest_file_skip) auto
  have w: "working (skipped 1 st) = working st" by (simp add: skipped_def)
  have "\<forall>g \<in> set fs. is_file g \<and> sf_count bid (compute_checksum lib g) (working (skipped 1 st)) = 1"
    using Cons.prems unfolding w by simp
  from Cons.IH[OF this] 1 show ?case by (simp add: skipped_def)
qed

subsection \<open>Dry runs\<close>

lemma get_or_create_batch_frame:
  assumes "get_or_create_batch name w = Inr (batch, w')"
  shows "seeds w' = seeds w" "variations w' = variations w" "miners w' = miners w"
    "source_files w' = source_files w" "observations w' = observations w"
    "filter (\<lambda>b. batch_name b = name) (batches w') = [batch]"
    "w' = w \<or> (filter (\<lambda>b. batch_name b = name) (batches w) = [] \<and>
               w' = w\<lparr>batches := batches w @ [batch]\<rparr>)"
  using assms scalar_one_cases[of "filter (\<lambda>b. batch_name b = name) (batches w)"]
  by (auto simp: get_or_create_batch_def Let_def insert_unique_def
      split: sum.splits option.splits if_splits)

lemma ingest_with_dry: "snd (ingest_with lib adapter name files True resume store) = store"
proof (cases "get_or_create_batch name store")
  case (Inl e)
  then show ?thesis by (simp add: ingest_with_def)
next
  case (Inr bw)
  obtain batch w where bw: "bw = (batch, w)" by (cases bw)
  let ?st = "\<lparr>committed = store, working = w, metrics = metrics0\<rparr>"
  have "committed (snd (ingest_files lib adapter True resume (b_id batch) files ?st)) = store"
    using ingest_files_dry_committed[of lib adapter resume "b_id batch" files ?st] by simp
  with Inr bw show ?thesis
    by (cases "ingest_files lib adapter True resume (b_id batch) files ?st")
       (auto simp: ingest_with_def split: option.splits)
qed

lemma ingest_batch_dry: "snd (ingest_batch lib name files adapter_name True resume store) = store"
  by (cases "get_adapter lib adapter_name") (simp_all add: ingest_batch_def ingest_with_dry)

lemma load_file_ahmed: "load_json lib0 file_ahmed = Some doc_ahmed"
  by (simp add: load_json_def lib0_def file_ahmed_def json_text_def u_def)

lemma parse_doc_ahmed:
  "parse lib0 doc_ahmed =
     [canonical_record (u ''Ahmed'') (JStr (u ''ahmad'')) (JStr (u ''0xabc'')),
      canonical_record (u ''Ahmed'') (JStr (u ''amed'')) (JStr (u ''0xabc''))]"
  by (simp add: parse_def doc_ahmed_def py_get_def parse_response_def get_miner_id_def
      parse_variations_def lib0_def u_def Let_def)

lemma normalize_lib0_examples:
  "normalize_text lib0 False (u ''Ahmed'') = u ''ahmed''"
  "normalize_text lib0 False (u ''ahmad'') = u ''ahmad''"
  "normalize_text lib0 False (u ''amed'') = u ''amed''"
  by (simp_all add: normalize_text_def strip_def strip_accents_def lib0_def py_isspace_def u_def)

lemma ingest_records_ahmed_dry:
  "ingest_records lib0 True 1 None (parse lib0 doc_ahmed) (st0, 0) = Inr (dry_session, 2)"
  unfolding parse_doc_ahmed
  by (simp add: ingest_record_def validate_record_def canonical_record_def py_get_def
      normalize_seed_def normalize_variation_def normalize_lib0_examples md5_hex_def
      get_or_create_seed_def get_or_create_variation_def get_or_create_miner_def
      insert_unique_def next_id_def Let_def st0_def empty_db_def metrics0_def
      dry_session_def db_ahmed_miner_def db_ahmed_def)
    (simp add: lib0_def u_def)


text \<open>
  The claim as stated fails where it says that a dry run issues no writes: the record loop
  of a dry run over the example document, on the empty store, ends with the seed, its two
  variations and the miner added to the session's store. The second record finds the seed
  that the first one flushed, and is counted in \<open>seeds_existing\<close>.
\<close>

theorem dry_run_flushes_rows:
  "ingest_records lib0 True 1 None (parse lib0 doc_ahmed) (st0, 0) = Inr (dry_session, 2)
   \<and> working dry_session \<noteq> working st0
   \<and> map seed_text (seeds (working dry_session)) = [u ''Ahmed'']
   \<and> map variation_text (variations (working dry_session)) = [u ''ahmad'', u ''amed'']
   \<and> seeds_new (metrics dry_session) = 1
   \<and> seeds_existing (metrics dry_session) = 1"
  using ingest_records_ahmed_dry
  by (simp add: dry_session_def db_ahmed_miner_def db_ahmed_def st0_def empty_db_def metrics0_def)

subsection \<open>Resuming\<close>


lemma checksum_content: "content g = content f \<Longrightarrow> compute_checksum lib g = compute_checksum lib f"
  by (simp add: compute_checksum_def)


subsection \<open>A second run over the same files\<close>

lemma ingest_with_rerun:
  assumes run1: "ingest_with lib adapter name files False True store = (Returned m1, store1)"
    and ok: "\<forall>f \<in> set files. is_file f \<and> load_json lib f \<noteq> None"
    and again: "\<forall>g \<in> set files'. is_file g \<and> content g \<in> content ` set files"
  shows "ingest_with lib adapter' name files' dry True store1
         = (Returned (metrics0\<lparr>files_skipped := length files'\<rparr>), store1)"
proof -
  from run1 obtain batch w where gb: "get_or_create_batch name store = Inr (batch, w)"
    by (auto simp: ingest_with_def split: sum.splits)
  let ?S0 = "\<lparr>committed = store, working = w, metrics = metrics0\<rparr>"
  from run1 gb obtain st_end where
    fs: "ingest_files lib adapter False True (b_id batch) files ?S0 = (None, st_end)"
    and s1: "store1 = committed st_end"
    by (auto simp: ingest_with_def split: sum.splits option.splits prod.splits)
  from ingest_files_frame[OF fs] have
    b: "batches (working st_end) = batches w"
    and j: "(committed st_end = store \<and> working st_end = w) \<or> committed st_end = working st_end"
    and c: "\<forall>f \<in> set files. is_file f \<and> load_json lib f \<noteq> None
          \<longrightarrow> sf_count (b_id batch) (compute_checksum lib f) (working st_end) = 1"
    by simp_all
  have gb2: "get_or_create_batch name store1 = Inr (batch, working st_end)"
    using j
  proof
    assume "committed st_end = store \<and> working st_end = w"
    with gb s1 show ?thesis by simp
  next
    assume k: "committed st_end = working st_end"
    have "filter (\<lambda>b. batch_name b = name) (batches (working st_end)) = [batch]"
      unfolding b using gb by (rule get_or_create_batch_frame(6))
    then show ?thesis unfolding s1 k by (simp add: get_or_create_batch_def)
  qed
  let ?S1 = "\<lparr>committed = store1, working = working st_end, metrics = metrics0\<rparr>"
  have "\<forall>g \<in> set files'. is_file g
          \<and> sf_count (b_id batch) (compute_checksum lib g) (working ?S1) = 1"
  proof
    fix g assume g: "g \<in> set files'"
    with again obtain f where f: "f \<in> set files" "content g = content f" by auto
    with c ok have "sf_count (b_id batch) (compute_checksum lib f) (working st_end) = 1" by blast
    with g again f(2) show "is_file g
          \<and> sf_count (b_id batch) (compute_checksum lib g) (working ?S1) = 1"
      by (simp add: checksum_content[OF f(2)])
  qed
  then have "ingest_files lib adapter' dry True (b_id batch) files' ?S1
             = (None, skipped (length files') ?S1)"
    by (rule ingest_files_skip_all)
  with gb2 show ?thesis by (simp add: ingest_with_def skipped_def metrics0_def)
qed

text \<open>
  C2. When a run of \<open>ingest_batch\<close> with \<open>resume\<close> set (and not a dry run) over regular
  files that all parse as JSON has returned, a further run with \<open>resume\<close> set, under
  the same batch name, over regular files whose bytes are those of files of the first run
  (the same files, or copies under other names) skips every file: \<open>files_skipped\<close> is the
  number of files, \<open>observations_inserted\<close> and every other counter are 0, and the store
  is the one the first run left. The hypothesis on the second list reads the content of
  the files only, never their paths.
\<close>

theorem rerun_with_resume_skips_all:
  assumes "ingest_batch lib name files adapter_name False True store = (Returned m1, store1)"
    and "\<forall>f \<in> set files. is_file f \<and> load_json lib f \<noteq> None"
    and "\<forall>g \<in> set files'. is_file g \<and> content g \<in> content ` set files"
  shows "ingest_batch lib name files' adapter_name dry True store1
         = (Returned (metrics0\<lparr>files_skipped := length files'\<rparr>), store1)
     \<and> files_skipped (metrics0\<lparr>files_skipped := length files'\<rparr>) = length files'
     \<and> observations_inserted (metrics0\<lparr>files_skipped := length files'\<rparr>) = 0"
proof (cases "get_adapter lib adapter_name")
  case (Inl e)
  with assms(1) show ?thesis by (simp add: ingest_batch_def)
next
  case (Inr adapter)
  with assms(1) have "ingest_with lib adapter name files False True store = (Returned m1, store1)"
    by (simp add: ingest_batch_def)
  from ingest_with_rerun[OF this assms(2,3), of adapter dry] Inr show ?thesis
    by (simp add: ingest_batch_def metrics0_def)
qed

subsection \<open>Evaluating the examples\<close>

lemma u_inj: "(u a = u b) = (a = b)"
proof -
  have "inj (of_char :: char \<Rightarrow> nat)" by (rule injI) simp
  then show ?thesis unfolding u_def by (simp add: inj_map_eq_map)
qed

lemma u_Nil: "(u a = []) = (a = [])"
  by (simp add: u_def)

lemma lib0_sel:
  "md5 lib0 t = t" "sha256 lib0 bs = bs" "str_of lib0 = str_val" "json_dumps lib0 j = []"
  by (simp_all add: lib0_def)

lemmas eval_defs =
  ingest_record_def validate_record_def canonical_record_def py_get_def
  normalize_seed_def normalize_variation_def normalize_lib0_examples md5_hex_def
  get_or_create_seed_def get_or_create_variation_def get_or_create_miner_def
  get_or_create_batch_def add_observation_def add_source_file_def set_record_count_def
  find_source_file_def commit_def process_file_def ingest_file_def
  insert_unique_def next_id_def Let_def st0_def empty_db_def metrics0_def
  db_ahmed_miner_def db_ahmed_def db_once_def db_run1_def m_once_def st_once_def
  u_inj u_Nil lib0_sel

lemma file_facts:
  "is_file file_ahmed" "is_file file_copy" "path file_ahmed = ''ahmed.json''"
  "path file_copy = ''copy.json''" "content file_copy = content file_ahmed"
  "compute_checksum lib0 file_ahmed = content file_ahmed"
  "compute_checksum lib0 file_copy = content file_ahmed"
  "load_json lib0 file_copy = Some doc_ahmed"
  "is_file file_broken" "load_json lib0 file_broken = None"
  "is_file file_broken_copy" "load_json lib0 file_broken_copy = None"
  by (simp_all add: file_ahmed_def file_copy_def file_broken_def file_broken_copy_def
      compute_checksum_def
      load_json_def lib0_def json_text_def u_def)

lemma ingest_file_ahmed_once:
  "ingest_file lib0 (parse lib0) False True 1 file_ahmed st0 = Inr st_once"
  by (simp add: eval_defs file_facts load_file_ahmed parse_doc_ahmed)


lemma ingest_batch_ahmed_once:
  "ingest_batch lib0 ''b1'' [file_ahmed] ''generic_responses_v1'' False True empty_db
     = (Returned m_once, db_run1)"
  by (simp add: ingest_batch_def get_adapter_def ingest_with_def eval_defs file_facts
      load_file_ahmed parse_doc_ahmed)

theorem rerun_with_resume_skips_all_witness:
  "ingest_batch lib0 ''b1'' [file_ahmed] ''generic_responses_v1'' False True empty_db
     = (Returned m_once, db_run1)
   \<and> ingest_batch lib0 ''b1'' [file_copy, file_ahmed] ''generic_responses_v1'' False True db_run1
     = (Returned (metrics0\<lparr>files_skipped := 2\<rparr>), db_run1)"
proof -
  have 2: "\<forall>f \<in> set [file_ahmed]. is_file f \<and> load_json lib0 f \<noteq> None"
    by (simp add: file_facts load_file_ahmed)
  have 3: "\<forall>g \<in> set [file_copy, file_ahmed]. is_file g \<and> content g \<in> content ` set [file_ahmed]"
    by (simp add: file_facts)
  from rerun_with_resume_skips_all[OF ingest_batch_ahmed_once 2 3, of False]
    ingest_batch_ahmed_once
  show ?thesis by simp
qed



subsection \<open>When the SourceFile row is written and when it is committed\<close>

lemma set_record_count_last:
  assumes "fid = next_id (map f_id rows)"
  shows "map (\<lambda>r. if f_id r = fid then r\<lparr>record_count := Some n\<rparr> else r)
           (rows @ [\<lparr>f_id = fid, f_batch_id = bid, file_path = p, file_checksum = c,
                      record_count = None\<rparr>])
         = rows @ [\<lparr>f_id = fid, f_batch_id = bid, file_path = p, file_checksum = c,
                    record_count = Some n\<rparr>]"
proof -
  have "\<forall>r \<in> set rows. f_id r \<noteq> fid"
    unfolding assms using next_id_fresh[of _ "map f_id rows"] by fastforce
  then have "map (\<lambda>r. if f_id r = fid then r\<lparr>record_count := Some n\<rparr> else r) rows = rows"
    by (simp add: map_idI)
  then show ?thesis by simp
qed

text \<open>
  C5 (amended). In a run that is not a dry run, for a file that is not skipped and whose
  JSON document loads, the \<open>SourceFile\<close> row (batch, path, checksum) is added to the
  session and flushed before the first record is processed, but it is not committed then:
  the records are processed in a session whose working store has the row and whose
  committed store is the one from before the file. The row is committed, with the record
  count, together with the file's records once they are all processed; when processing
  raises, the run ends and the persisted store is the one from before the file, without
  the row.
\<close>

theorem source_file_flushed_then_committed:
  assumes "is_file f" and "load_json lib f = Some data"
    and "resume \<longrightarrow> sf_count bid (compute_checksum lib f) (working st) = 0"
  shows "(case ingest_records lib False bid
                 (Some (next_id (map f_id (source_files (working st))))) (adapter data)
                 (st\<lparr>working := (working st)\<lparr>source_files := source_files (working st) @
                       [\<lparr>f_id = next_id (map f_id (source_files (working st))),
                         f_batch_id = bid, file_path = path f,
                         file_checksum = compute_checksum lib f,
                         record_count = None\<rparr>]\<rparr>\<rparr>, 0) of
            Inl e \<Rightarrow>
              ingest_file lib adapter False resume bid f st = Inl e \<and>
              ingest_files lib adapter False resume bid (f # fs) st = (Some e, st)
          | Inr (st2, n) \<Rightarrow>
              (\<exists>st'. ingest_file lib adapter False resume bid f st = Inr st' \<and>
                     committed st' = working st' \<and>
                     source_files (committed st') = source_files (working st) @
                       [\<lparr>f_id = next_id (map f_id (source_files (working st))),
                         f_batch_id = bid, file_path = path f,
                         file_checksum = compute_checksum lib f,
                         record_count = Some n\<rparr>]))"
proof -
  define fid where "fid = next_id (map f_id (source_files (working st)))"
  define c where "c = compute_checksum lib f"
  define st1 where "st1 = st\<lparr>working := (working st)\<lparr>source_files :=
      source_files (working st) @
        [\<lparr>f_id = fid, f_batch_id = bid, file_path = path f, file_checksum = c,
          record_count = None\<rparr>]\<rparr>\<rparr>"
  have a: "add_source_file bid (path f) c st = (fid, st1)"
    by (simp add: add_source_file_def Let_def fid_def st1_def)
  have q: "(if resume then find_source_file bid (compute_checksum lib f) (working st)
            else Inr None) = Inr None"
    using assms(3) find_source_file_count[of bid "compute_checksum lib f" "working st"]
    by auto
  have i: "ingest_file lib adapter False resume bid f st
           = process_file lib adapter False bid f c data st"
    using assms(1,2) by (simp add: ingest_file_def Let_def q c_def)
  note p = process_file_wet[OF a, of lib adapter data]
  show ?thesis
  proof (cases "ingest_records lib False bid (Some fid) (adapter data) (st1, 0)")
    case (Inl e)
    with i p have "ingest_file lib adapter False resume bid f st = Inl e" by simp
    with Inl show ?thesis unfolding fid_def[symmetric] c_def[symmetric] st1_def[symmetric]
      by simp
  next
    case (Inr r)
    obtain st2 n where r: "r = (st2, n)" by (cases r)
    define st' where "st' = commit ((set_record_count fid n st2)\<lparr>metrics :=
        (metrics st2)\<lparr>files_processed := files_processed (metrics st2) + 1\<rparr>\<rparr>)"
    from Inr r i p have 1: "ingest_file lib adapter False resume bid f st = Inr st'"
      by (simp add: st'_def)
    have 2: "committed st' = working st'" by (simp add: st'_def commit_def)
    from ingest_records_frame[OF Inr[unfolded r]]
    have "source_files (working st2) = source_files (working st1)" by simp
    then have "source_files (working st') =
        map (\<lambda>r. if f_id r = fid then r\<lparr>record_count := Some n\<rparr> else r)
          (source_files (working st) @
            [\<lparr>f_id = fid, f_batch_id = bid, file_path = path f, file_checksum = c,
              record_count = None\<rparr>])"
      by (simp add: st'_def commit_def set_record_count_def st1_def)
    also have "\<dots> = source_files (working st) @
            [\<lparr>f_id = fid, f_batch_id = bid, file_path = path f, file_checksum = c,
              record_count = Some n\<rparr>]"
      using fid_def by (rule set_record_count_last)
    finally have 3: "source_files (committed st') = source_files (working st) @
            [\<lparr>f_id = fid, f_batch_id = bid, file_path = path f, file_checksum = c,
              record_count = Some n\<rparr>]"
      using 2 by simp
    from Inr r 1 2 3 show ?thesis
      unfolding fid_def[symmetric] c_def[symmetric] st1_def[symmetric] by auto
  qed
qed


theorem source_file_flushed_then_committed_witness:
  "is_file file_ahmed \<and> load_json lib0 file_ahmed = Some doc_ahmed
   \<and> sf_count 1 (compute_checksum lib0 file_ahmed) (working st0) = 0
   \<and> ingest_file lib0 (parse lib0) False True 1 file_ahmed st0 = Inr st_once
   \<and> committed st_once = working st_once
   \<and> source_files (committed st_once)
       = [\<lparr>f_id = 1, f_batch_id = 1, file_path = ''ahmed.json'',
           file_checksum = content file_ahmed, record_count = Some 2\<rparr>]"
proof -
  have 3: "True \<longrightarrow> sf_count 1 (compute_checksum lib0 file_ahmed) (working st0) = 0"
    by (simp add: sf_count_def st0_def empty_db_def)
  from source_file_flushed_then_committed[OF file_facts(1) load_file_ahmed 3,
      of "parse lib0" "[]"]
    3 file_facts(1) load_file_ahmed ingest_file_ahmed_once
  show ?thesis by (simp add: st_once_def db_once_def)
qed

text \<open>
  The claim as stated fails: when the record loop starts, the \<open>SourceFile\<close> row is in the
  session's working store and not in the committed one; and a run that raises while it
  processes the records of its first file (here the seed lookup finds two rows) ends
  with no \<open>SourceFile\<close> row in the persisted store.
\<close>

theorem source_file_not_committed_before_records:
  "source_files (working (snd (add_source_file 1 (path file_ahmed)
                                (compute_checksum lib0 file_ahmed) st0)))
     = [\<lparr>f_id = 1, f_batch_id = 1, file_path = ''ahmed.json'',
         file_checksum = content file_ahmed, record_count = None\<rparr>]
   \<and> source_files (committed (snd (add_source_file 1 (path file_ahmed)
                                    (compute_checksum lib0 file_ahmed) st0))) = []
   \<and> ingest_batch lib0 ''b1'' [file_ahmed] ''generic_responses_v1'' False True db_dup
       = (Raised MultipleResultsFound, db_dup)
   \<and> source_files db_dup = []"
  by (simp add: ingest_batch_def get_adapter_def ingest_with_def eval_defs file_facts
      load_file_ahmed parse_doc_ahmed db_dup_def)

subsection \<open>Files whose document has another shape\<close>






subsection \<open>A second run after a run without resume\<close>

text \<open>
  The claim as stated fails for a directory that was ingested without \<open>resume\<close>: such a
  run checks no checksum, so two files with the same bytes are both processed and leave
  two \<open>SourceFile\<close> rows of the batch with one checksum (the table has no unique
  constraint). The run with \<open>resume\<close> over the unchanged directory then raises in
  the resume query of its first file and reports nothing. It fails too for a file that is
  not JSON: every run counts it in \<open>invalid_records\<close> and leaves no row for it, so no
  later run skips it.
\<close>

theorem rerun_after_no_resume_raises:
  "fst (ingest_batch lib0 ''b1'' [file_ahmed, file_copy] ''generic_responses_v1'' False False
          empty_db)
     = Returned (metrics0\<lparr>seeds_new := 1, seeds_existing := 3, variations_new := 2,
                          variations_existing := 2, observations_inserted := 4,
                          files_processed := 2\<rparr>)
   \<and> map file_checksum
        (source_files (snd (ingest_batch lib0 ''b1'' [file_ahmed, file_copy]
                              ''generic_responses_v1'' False False empty_db)))
     = [content file_ahmed, content file_ahmed]
   \<and> fst (ingest_batch lib0 ''b1'' [file_ahmed, file_copy] ''generic_responses_v1'' False True
            (snd (ingest_batch lib0 ''b1'' [file_ahmed, file_copy] ''generic_responses_v1''
                    False False empty_db)))
     = Raised MultipleResultsFound
   \<and> ingest_batch lib0 ''b1'' [file_broken] ''generic_responses_v1'' False True empty_db
     = (Returned (metrics0\<lparr>invalid_records := 1\<rparr>), empty_db)"
  by (simp add: ingest_batch_def get_adapter_def ingest_with_def eval_defs file_facts
      load_file_ahmed parse_doc_ahmed)

subsection \<open>What a dry run reports\<close>

lemma would_accept_cong:
  "source_files w' = source_files w \<Longrightarrow>
   would_accept lib adapter resume bid w' f = would_accept lib adapter resume bid w f"
  by (simp add: would_accept_def sf_count_def)

lemma ingest_file_dry_count:
  assumes r: "ingest_file lib adapter True resume bid f st = Inr st'"
  shows "source_files (working st') = source_files (working st)
     \<and> observations (working st') = observations (working st)
     \<and> committed st' = committed st
     \<and> observations_inserted (metrics st')
         = observations_inserted (metrics st) + would_accept lib adapter resume bid (working st) f"
  using ingest_file_cases[OF r]
proof (elim disjE exE conjE)
  assume "\<not> is_file f" "st' = st"
  then show ?thesis by (simp add: would_accept_def)
next
  assume "resume" "is_file f" "sf_count bid (compute_checksum lib f) (working st) = 1"
    "st' = skipped 1 st"
  then show ?thesis by (simp add: would_accept_def skipped_def)
next
  assume "is_file f" "load_json lib f = None"
    "st' = st\<lparr>metrics := (metrics st)\<lparr>invalid_records := invalid_records (metrics st) + 1\<rparr>\<rparr>"
  then show ?thesis by (simp add: would_accept_def)
next
  fix data
  assume f: "is_file f" and l: "load_json lib f = Some data"
    and z: "resume \<longrightarrow> sf_count bid (compute_checksum lib f) (working st) = 0"
    and p: "process_file lib adapter True bid f (compute_checksum lib f) data st = Inr st'"
  from f l z have "would_accept lib adapter resume bid (working st) f
      = length (filter (\<lambda>r. fst (validate_record r)) (adapter data))"
    by (simp add: would_accept_def)
  with process_file_frame[OF p] show ?thesis by simp
qed

lemma ingest_files_dry_count:
  "ingest_files lib adapter True resume bid fs st = (None, st') \<Longrightarrow>
   source_files (working st') = source_files (working st)
   \<and> observations (working st') = observations (working st)
   \<and> committed st' = committed st
   \<and> observations_inserted (metrics st')
       = observations_inserted (metrics st)
         + sum_list (map (would_accept lib adapter resume bid (working st)) fs)"
proof (induction fs arbitrary: st)
  case Nil
  then show ?case by simp
next
  case (Cons f fs)
  from Cons.prems obtain st1 where
    1: "ingest_file lib adapter True resume bid f st = Inr st1"
    and 2: "ingest_files lib adapter True resume bid fs st1 = (None, st')"
    by (auto split: sum.splits)
  note a = ingest_file_dry_count[OF 1]
  from a have "source_files (working st1) = source_files (working st)" by simp
  then have c: "would_accept lib adapter resume bid (working st1)
                = would_accept lib adapter resume bid (working st)"
    by (intro ext would_accept_cong)
  from a Cons.IH[OF 2] show ?case unfolding c by simp
qed

lemma ingest_with_dry_count:
  assumes "ingest_with lib adapter name files True resume store = (Returned m, store')"
  shows "\<exists>batch w. get_or_create_batch name store = Inr (batch, w)
     \<and> observations_inserted m
         = sum_list (map (would_accept lib adapter resume (b_id batch) store) files)"
proof -
  from assms obtain batch w where gb: "get_or_create_batch name store = Inr (batch, w)"
    by (auto simp: ingest_with_def split: sum.splits)
  let ?S0 = "\<lparr>committed = store, working = w, metrics = metrics0\<rparr>"
  from assms gb obtain st_end where
    fs: "ingest_files lib adapter True resume (b_id batch) files ?S0 = (None, st_end)"
    and m: "m = metrics st_end"
    by (auto simp: ingest_with_def split: sum.splits option.splits prod.splits)
  have "source_files w = source_files store" using gb by (rule get_or_create_batch_frame(4))
  then have c: "would_accept lib adapter resume (b_id batch) w
                = would_accept lib adapter resume (b_id batch) store"
    by (intro ext would_accept_cong)
  from ingest_files_dry_count[OF fs] have "observations_inserted m
      = sum_list (map (would_accept lib adapter resume (b_id batch) store) files)"
    unfolding m by (simp add: c metrics0_def)
  with gb show ?thesis by blast
qed

text \<open>
  C4 (amended). A run with \<open>dry_run\<close> set leaves the persisted store as it was, whatever
  its outcome: nothing is committed. The loop over the files adds no \<open>SourceFile\<close> and
  no \<open>Observation\<close> row to the session either. The Metrics it returns count in
  \<open>observations_inserted\<close> every record that passes validation in every file the run
  processes, that is every regular file whose JSON loads and that the resume check over
  the store does not skip. (The get-or-create operations still add and flush the missing
  \<open>Batch\<close>, \<open>Seed\<close>, \<open>Variation\<close> and \<open>Miner\<close> rows in the session's transaction,
  which is discarded when the session is closed: see the counterexample.)
\<close>

theorem dry_run_commits_nothing:
  "snd (ingest_batch lib name files adapter_name True resume store) = store
   \<and> snd (ingest_with lib adapter name files True resume store) = store
   \<and> (ingest_batch lib name files adapter_name True resume store = (Returned m, store') \<longrightarrow>
        (\<exists>a batch w. get_adapter lib adapter_name = Inr a
           \<and> get_or_create_batch name store = Inr (batch, w)
           \<and> observations_inserted m
               = sum_list (map (would_accept lib a resume (b_id batch) store) files)))
   \<and> (ingest_files lib adapter True resume bid files st = (None, st1) \<longrightarrow>
        source_files (working st1) = source_files (working st)
        \<and> observations (working st1) = observations (working st)
        \<and> committed st1 = committed st
        \<and> observations_inserted (metrics st1)
            = observations_inserted (metrics st)
              + sum_list (map (would_accept lib adapter resume bid (working st)) files))
   \<and> (ingest_records lib True bid sf recs (st, n) = Inr (st', n') \<longrightarrow>
        observations_inserted (metrics st')
          = observations_inserted (metrics st) + length (filter (\<lambda>r. fst (validate_record r)) recs)
        \<and> committed st' = committed st
        \<and> source_files (working st') = source_files (working st)
        \<and> observations (working st') = observations (working st))"
proof -
  have 3: "\<exists>a batch w. get_adapter lib adapter_name = Inr a
           \<and> get_or_create_batch name store = Inr (batch, w)
           \<and> observations_inserted m
               = sum_list (map (would_accept lib a resume (b_id batch) store) files)"
    if r: "ingest_batch lib name files adapter_name True resume store = (Returned m, store')"
  proof (cases "get_adapter lib adapter_name")
    case (Inl e)
    with r show ?thesis by (simp add: ingest_batch_def)
  next
    case (Inr a)
    with r have "ingest_with lib a name files True resume store = (Returned m, store')"
      by (simp add: ingest_batch_def)
    from ingest_with_dry_count[OF this] Inr show ?thesis by blast
  qed
  from 3 ingest_batch_dry[of lib name files adapter_name resume store]
    ingest_with_dry[of lib adapter name files resume store]
    ingest_files_dry_count[of lib adapter resume bid files st st1]
    ingest_records_frame[of lib True bid sf recs st n st' n']
  show ?thesis by simp
qed

lemma would_accept_ahmed:
  "would_accept lib0 (parse lib0) True 1 empty_db file_ahmed = 2"
  "would_accept lib0 (parse lib0) True 1 empty_db file_copy = 2"
  by (simp_all add: would_accept_def sf_count_def empty_db_def file_facts load_file_ahmed
      parse_doc_ahmed validate_record_def canonical_record_def py_get_def u_inj u_Nil)

lemma ingest_batch_dry_twice:
  "ingest_batch lib0 ''b1'' [file_ahmed, file_copy] ''generic_responses_v1'' True True empty_db
     = (Returned (metrics0\<lparr>seeds_new := 1, seeds_existing := 3, variations_new := 2,
                           variations_existing := 2, observations_inserted := 4,
                           files_processed := 2\<rparr>), empty_db)"
  by (simp add: ingest_batch_def get_adapter_def ingest_with_def eval_defs file_facts
      load_file_ahmed parse_doc_ahmed)

theorem dry_run_commits_nothing_witness:
  "ingest_batch lib0 ''b1'' [file_ahmed, file_copy] ''generic_responses_v1'' True True empty_db
     = (Returned (metrics0\<lparr>seeds_new := 1, seeds_existing := 3, variations_new := 2,
                           variations_existing := 2, observations_inserted := 4,
                           files_processed := 2\<rparr>), empty_db)
   \<and> get_adapter lib0 ''generic_responses_v1'' = Inr (parse lib0)
   \<and> b_id (fst (projr (get_or_create_batch ''b1'' empty_db))) = 1
   \<and> sum_list (map (would_accept lib0 (parse lib0) True 1 empty_db) [file_ahmed, file_copy]) = 4
   \<and> ingest_records lib0 True 1 None (parse lib0 doc_ahmed) (st0, 0) = Inr (dry_session, 2)
   \<and> length (filter (\<lambda>r. fst (validate_record r)) (parse lib0 doc_ahmed)) = 2
   \<and> observations_inserted (metrics dry_session) = 2
   \<and> committed dry_session = empty_db
   \<and> source_files (working dry_session) = []
   \<and> observations (working dry_session) = []"
proof -
  have v: "length (filter (\<lambda>r. fst (validate_record r)) (parse lib0 doc_ahmed)) = 2"
    unfolding parse_doc_ahmed
    by (simp add: validate_record_def canonical_record_def py_get_def u_def)
  have g: "get_or_create_batch ''b1'' empty_db
           = Inr (\<lparr>b_id = 1, batch_name = ''b1''\<rparr>,
                  empty_db\<lparr>batches := [\<lparr>b_id = 1, batch_name = ''b1''\<rparr>]\<rparr>)"
    by (simp add: get_or_create_batch_def insert_unique_def next_id_def empty_db_def Let_def)
  from dry_run_commits_nothing[where lib = lib0 and name = "''b1''"
      and files = "[file_ahmed, file_copy]" and adapter_name = "''generic_responses_v1''"
      and resume = True and store = empty_db and adapter = "parse lib0"
      and m = "metrics0\<lparr>seeds_new := 1, seeds_existing := 3, variations_new := 2,
                           variations_existing := 2, observations_inserted := 4,
                           files_processed := 2\<rparr>"
      and store' = empty_db and bid = 1 and sf = None and recs = "parse lib0 doc_ahmed"
      and st = st0 and n = 0 and st' = dry_session and n' = 2]
    ingest_batch_dry_twice ingest_records_ahmed_dry v g would_accept_ahmed
  show ?thesis by (simp add: st0_def metrics0_def empty_db_def get_adapter_def)
qed

subsection \<open>The get-or-create operations keep the store's rows unique\<close>










subsection \<open>Records stored once\<close>









subsection \<open>Files and runs keep the store's rows unique\<close>










subsection \<open>What a run without the resume check counts\<close>

lemma would_accept_no_resume:
  "would_accept lib adapter False bid w f = would_accept lib adapter False bid' w' f"
  by (simp add: would_accept_def)








subsection \<open>Two runs over the same records\<close>

lemma ingest_batch_ahmed_no_resume:
  "ingest_batch lib0 ''b1'' [file_ahmed] ''generic_responses_v1'' False False empty_db
     = (Returned m_once, db_run1)"
  by (simp add: ingest_batch_def get_adapter_def ingest_with_def eval_defs file_facts
      load_file_ahmed parse_doc_ahmed)









end
